theory Spec2Isabelle
  imports Main "HOL-Library.Sublist" "HOL-Library.List_Lexorder" "HOL-Library.Char_ord"
begin

section \<open>Python strings and integers\<close>

text \<open>
  A Python \<open>str\<close> is modelled as a \<open>string\<close>. The characters the program looks at
  (\<open>/\<close>, space, \<open>_\<close>, digits, ASCII letters) are single bytes that never occur inside
  the UTF-8 encoding of another character, so splitting, stripping and filtering on them
  give the same pieces on bytes as on code points.
\<close>

definition digit_char :: "int \<Rightarrow> char" where
  "digit_char n = ''0123456789'' ! nat (n mod 10)"

function digits_of :: "int \<Rightarrow> string" where
  "digits_of n =
     (if n < 10 then [digit_char n] else digits_of (n div 10) @ [digit_char n])"
  by pat_completeness auto
termination
  by (relation "measure nat") auto

declare digits_of.simps [simp del]

text \<open>\<open>str(i)\<close>, which is also what an f-string writes for an \<open>int\<close>.\<close>

definition str_int :: "int \<Rightarrow> string" where
  "str_int i = (if i < 0 then CHR ''-'' # digits_of (- i) else digits_of i)"

section \<open>utils.py\<close>

text \<open>
  A \<open>requests.Response\<close>: the three attributes \<open>_raise_for_status\<close> reads, and the body.
  The body is kept as what the library call of the caller reads from \<open>response.text\<close>
  (\<open>BeautifulSoup(...).find_all\<close>, \<open>pandas.read_csv\<close>, \<open>response.json()\<close>); these parsers
  are not part of the repository.
\<close>

record 'b response =
  status_code :: int
  reason :: string
  url :: string
  body :: 'b

text \<open>
  The exceptions of the program. \<open>HTTPError msg response\<close> is
  \<open>requests.exceptions.HTTPError(msg, response=response)\<close>; \<open>Transport\<close> stands for the
  exceptions \<open>session.post\<close> and \<open>session.get\<close> raise themselves (timeout, connection
  error, broken transfer encoding), all of them subclasses of \<open>Exception\<close>.
\<close>

datatype 'b error =
    HTTPError string "'b response"
  | Transport string
  | KeyError string
  | ValueError string
  | TypeError string
  | OverflowError string
  | AttributeError string
  | AmbiguousTimeError string
  | NonExistentTimeError string

fun exception_class :: "'b error \<Rightarrow> string" where
  "exception_class (HTTPError m r) = ''HTTPError''"
| "exception_class (Transport m) = ''RequestException''"
| "exception_class (KeyError m) = ''KeyError''"
| "exception_class (ValueError m) = ''ValueError''"
| "exception_class (TypeError m) = ''TypeError''"
| "exception_class (OverflowError m) = ''OverflowError''"
| "exception_class (AttributeError m) = ''AttributeError''"
| "exception_class (AmbiguousTimeError m) = ''AmbiguousTimeError''"
| "exception_class (NonExistentTimeError m) = ''NonExistentTimeError''"

definition client_error_msg :: "'b response \<Rightarrow> string" where
  "client_error_msg r =
     str_int (status_code r) @ '' Client Error:'' @ '' '' @ reason r @ '' for url: '' @ url r"

definition server_error_msg :: "'b response \<Rightarrow> string" where
  "server_error_msg r =
     str_int (status_code r) @ '' Server Error:'' @ '' '' @ reason r @ '' for url: '' @ url r"

text \<open>
  \<open>_raise_for_status\<close>: \<open>http_error_msg\<close> starts empty, one of the two branches may fill
  it, and a non-empty message is raised. \<open>Inr ()\<close> is the normal return of \<open>None\<close>.
\<close>

definition http_error_msg :: "'b response \<Rightarrow> string" where
  "http_error_msg r =
     (if 400 \<le> status_code r \<and> status_code r < 500 then client_error_msg r
      else if 500 \<le> status_code r \<and> status_code r < 600 then server_error_msg r
      else [])"

definition raise_for_status :: "'b response \<Rightarrow> 'b error + unit" where
  "raise_for_status r =
     (if http_error_msg r \<noteq> [] then Inl (HTTPError (http_error_msg r) r) else Inr ())"

section \<open>Python library functions used by the crawlers\<close>

text \<open>\<open>s.strip(c)\<close> for a one-character set.\<close>

definition strip_char :: "char \<Rightarrow> string \<Rightarrow> string" where
  "strip_char c s = rev (dropWhile (\<lambda>x. x = c) (rev (dropWhile (\<lambda>x. x = c) s)))"

text \<open>
  \<open>s.split(c)\<close> for a one-character separator. The result is never empty
  (splitting the empty string gives the list of one empty string), so \<open>[-1]\<close> and
  \<open>[0]\<close> on it never raise: they are \<open>last\<close> and \<open>hd\<close>.
\<close>

fun split_on :: "char \<Rightarrow> string \<Rightarrow> string list" where
  "split_on c [] = [[]]"
| "split_on c (x # xs) =
     (if x = c then [] # split_on c xs
      else (case split_on c xs of
              w # ws \<Rightarrow> (x # w) # ws
            | [] \<Rightarrow> [[x]]))"

definition last_segment :: "string \<Rightarrow> string" where
  "last_segment i = last (split_on CHR ''/'' (strip_char CHR ''/'' i))"

text \<open>
  \<open>s.strip()\<close>: the whitespace dropped at both ends is the space, the characters 0x09
  to 0x0D and 0x1C to 0x1F. Strings are sequences of bytes (UTF-8) here, and the
  whitespace that Unicode has outside ASCII is not modelled.
\<close>

definition is_space :: "char \<Rightarrow> bool" where
  "is_space c = (c \<in> {CHR '' '', CHR 0x09, CHR 0x0A, CHR 0x0B, CHR 0x0C, CHR 0x0D,
                       CHR 0x1C, CHR 0x1D, CHR 0x1E, CHR 0x1F})"

definition strip_space :: "string \<Rightarrow> string" where
  "strip_space s = rev (dropWhile is_space (rev (dropWhile is_space s)))"

text \<open>
  \<open>int(s)\<close> on a string: the whitespace dropped at both ends is the space and the
  characters 0x09 to 0x0D only, one sign is allowed, and the rest is decimal digits, with
  single underscores allowed between digits, and at most 4300 digits (the limit of the
  interpreter for the conversion). Anything else raises \<open>ValueError\<close>. The digits and the
  whitespace that Unicode has outside ASCII, which \<open>int\<close> reads too, are not modelled: a
  string with a byte above 0x7F raises here.
\<close>

definition is_c_space :: "char \<Rightarrow> bool" where
  "is_c_space c = (c \<in> {CHR '' '', CHR 0x09, CHR 0x0A, CHR 0x0B, CHR 0x0C, CHR 0x0D})"

definition is_digit :: "char \<Rightarrow> bool" where
  "is_digit c = (c \<in> set ''0123456789'')"

definition digit_val :: "char \<Rightarrow> int" where
  "digit_val c = of_char c - 48"

definition int_of_digits :: "string \<Rightarrow> int" where
  "int_of_digits s = foldl (\<lambda>a c. 10 * a + digit_val c) 0 s"

definition parse_digits :: "string \<Rightarrow> int option" where
  "parse_digits s =
     (let groups = split_on CHR ''_'' s
      in if list_all (\<lambda>g. g \<noteq> [] \<and> list_all is_digit g) groups
            \<and> int (length (concat groups)) \<le> 4300
         then Some (int_of_digits (concat groups)) else None)"

definition py_int :: "string \<Rightarrow> 'b error + int" where
  "py_int s =
     (let t = rev (dropWhile is_c_space (rev (dropWhile is_c_space s)));
          r = (case t of
                 [] \<Rightarrow> None
               | c # u \<Rightarrow>
                   if c = CHR ''-'' then map_option uminus (parse_digits u)
                   else if c = CHR ''+'' then parse_digits u
                   else parse_digits t)
      in case r of None \<Rightarrow> Inl (ValueError s) | Some i \<Rightarrow> Inr i)"

text \<open>\<open>re.sub(r"[^A-Za-z]", "", s)\<close>.\<close>

definition is_ascii_letter :: "char \<Rightarrow> bool" where
  "is_ascii_letter c =
     ((CHR ''A'' \<le> c \<and> c \<le> CHR ''Z'') \<or> (CHR ''a'' \<le> c \<and> c \<le> CHR ''z''))"

definition keep_letters :: "string \<Rightarrow> string" where
  "keep_letters s = filter is_ascii_letter s"

text \<open>
  \<open>sorted(rows, key=k, reverse=True)\<close>: descending, and stable (rows with equal keys
  keep their order). \<open>sort_key\<close> is a stable ascending sort.
\<close>

definition sorted_desc :: "('a \<Rightarrow> 'k::linorder) \<Rightarrow> 'a list \<Rightarrow> 'a list" where
  "sorted_desc k xs = rev (sort_key k (rev xs))"

subsection \<open>\<open>datetime.date\<close>\<close>

record date =
  year :: int
  month :: int
  day :: int

definition is_leap :: "int \<Rightarrow> bool" where
  "is_leap y = (y mod 4 = 0 \<and> (y mod 100 \<noteq> 0 \<or> y mod 400 = 0))"

definition days_in_month :: "int \<Rightarrow> int \<Rightarrow> int" where
  "days_in_month y m =
     (if m = 2 then (if is_leap y then 29 else 28)
      else if m \<in> {4, 6, 9, 11} then 30 else 31)"

definition fits_c_int :: "int \<Rightarrow> bool" where
  "fits_c_int i = (- (2 ^ 31) \<le> i \<and> i < 2 ^ 31)"

text \<open>
  \<open>dt.date(year=y, month=m, day=d)\<close>: \<open>OverflowError\<close> for an argument outside the C
  \<open>int\<close> range, \<open>ValueError\<close> for a year outside 1..9999, a month outside 1..12 or a day
  the month does not have.
\<close>

definition mk_date :: "int \<Rightarrow> int \<Rightarrow> int \<Rightarrow> 'b error + date" where
  "mk_date y m d =
     (if \<not> (fits_c_int y \<and> fits_c_int m \<and> fits_c_int d) then Inl (OverflowError ''date'')
      else if y < 1 \<or> 9999 < y then Inl (ValueError ''year'')
      else if m < 1 \<or> 12 < m then Inl (ValueError ''month'')
      else if d < 1 \<or> days_in_month y m < d then Inl (ValueError ''day'')
      else Inr \<lparr>year = y, month = m, day = d\<rparr>)"

text \<open>\<open>a < b\<close> on dates compares year, then month, then day.\<close>

definition date_lt :: "date \<Rightarrow> date \<Rightarrow> bool" where
  "date_lt a b =
     (year a < year b \<or> (year a = year b \<and>
        (month a < month b \<or> (month a = month b \<and> day a < day b))))"

section \<open>coes_downloader.py: the listing crawlers\<close>

text \<open>
  What the crawlers read from the HTML of a listing response: the \<open>id\<close> attribute of
  every \<open>a\<close> element of class \<open>infolist-link\<close> and the \<open>value\<close> attribute of every
  \<open>input\<close> element named \<open>cbSelect\<close>, in document order. \<open>None\<close> is an element without
  the attribute, on which \<open>attrs["id"]\<close> and \<open>link["value"]\<close> raise \<open>KeyError\<close>.
\<close>

record listing =
  links :: "string option list"
  files :: "string option list"

text \<open>
  The \<open>params\<close> dictionary of a request to \<open>/Portal/browser/vistadatos\<close>; \<open>dir_url\<close> is
  its key \<open>"url"\<close>. The program overwrites \<open>params["url"]\<close> before every request and
  never changes another key, so each request is the base dictionary with \<open>dir_url\<close>
  replaced.
\<close>

record params =
  baseDirectory :: string
  dir_url :: string
  indicador :: string
  initialLink :: string
  orderFolder :: string

text \<open>
  \<open>session.post\<close> on the listing endpoint, as a function of the parameters sent: a
  transport exception or a response.
\<close>

type_synonym server = "params \<Rightarrow> listing error + listing response"

text \<open>
  The events of a crawl in the order they happen. \<open>Post\<close> is a request answered with a
  status below 400, \<open>LogInfo\<close> a call of \<open>logger.info\<close>. \<open>Resolved\<close> is a ghost event: it
  marks the evaluation of \<open>date_obj = dt.date(...)\<close> and has no counterpart in the
  program's output.
\<close>

datatype event = Post params | Resolved date | LogInfo string

text \<open>
  The local variables \<open>stop\<close> and \<open>dowload_urls_map\<close> of a crawler, and the events so
  far. An exception discards them: the crawler returns nothing then.
\<close>

record 'e crawl_state =
  stop :: bool
  dowload_urls_map :: "'e list"
  trace :: "event list"

type_synonym prog_entry = "date \<times> string \<times> string"
type_synonym reprog_entry = "date \<times> string \<times> string \<times> string"

text \<open>\<open>response = session.post(...); _raise_for_status(response)\<close>.\<close>

definition post ::
  "server \<Rightarrow> params \<Rightarrow> 'e crawl_state \<Rightarrow> listing error + (listing response \<times> 'e crawl_state)"
where
  "post srv q s =
     (case srv q of
        Inl e \<Rightarrow> Inl e
      | Inr r \<Rightarrow>
          (case raise_for_status r of
             Inl e \<Rightarrow> Inl e
           | Inr _ \<Rightarrow> Inr (r, s\<lparr>trace := trace s @ [Post q]\<rparr>)))"

text \<open>
  The list comprehensions \<open>[(key(row.attrs["id"]), row.attrs["id"]) for row in ...]\<close>: the
  first row that raises ends the comprehension.
\<close>

fun parse_rows ::
  "(string \<Rightarrow> listing error + 'k) \<Rightarrow> string option list \<Rightarrow> listing error + ('k \<times> string) list"
where
  "parse_rows key [] = Inr []"
| "parse_rows key (a # as) =
     (case a of
        None \<Rightarrow> Inl (KeyError ''id'')
      | Some i \<Rightarrow>
          (case key i of
             Inl e \<Rightarrow> Inl e
           | Inr k \<Rightarrow>
               (case parse_rows key as of
                  Inl e \<Rightarrow> Inl e
                | Inr rows \<Rightarrow> Inr ((k, i) # rows))))"

definition year_key :: "string \<Rightarrow> listing error + int" where
  "year_key i = py_int (last_segment i)"

definition month_key :: "string \<Rightarrow> listing error + int" where
  "month_key i = py_int (hd (split_on CHR ''_'' (last_segment i)))"

definition day_key :: "string \<Rightarrow> listing error + int" where
  "day_key i = py_int (last (split_on CHR '' '' (last_segment i)))"

definition reprog_version :: "string \<Rightarrow> string" where
  "reprog_version i = keep_letters (last (split_on CHR '' '' (last_segment i)))"

definition reprog_key :: "string \<Rightarrow> listing error + string" where
  "reprog_key i = Inr (reprog_version i)"

definition file_name :: "string \<Rightarrow> string" where
  "file_name download_url = last (split_on CHR ''/'' download_url)"

text \<open>\<open>str(date_obj)\<close>: ISO format, the year padded to four digits.\<close>

definition pad_left :: "nat \<Rightarrow> string \<Rightarrow> string" where
  "pad_left n s = replicate (n - length s) CHR ''0'' @ s"

definition str_date :: "date \<Rightarrow> string" where
  "str_date d =
     pad_left 4 (str_int (year d)) @ ''-'' @ pad_left 2 (str_int (month d)) @ ''-''
       @ pad_left 2 (str_int (day d))"

subsection \<open>\<open>get_urls_prog_dia\<close>\<close>

text \<open>The innermost loop, \<open>for link in bs.find_all("input", {"name": "cbSelect"})\<close>.\<close>

fun prog_files_loop ::
  "date \<Rightarrow> string option list \<Rightarrow> prog_entry crawl_state \<Rightarrow> listing error + prog_entry crawl_state"
where
  "prog_files_loop date_obj [] s = Inr s"
| "prog_files_loop date_obj (link # rest) s =
     (case link of
        None \<Rightarrow> Inl (KeyError ''value'')
      | Some download_url \<Rightarrow>
          prog_files_loop date_obj rest
            (s\<lparr>dowload_urls_map :=
                 dowload_urls_map s @ [(date_obj, file_name download_url, download_url)]\<rparr>))"

text \<open>\<open>for day_int, day_row_id in day_row_ids\<close>.\<close>

fun prog_day_loop ::
  "server \<Rightarrow> date \<Rightarrow> params \<Rightarrow> int \<Rightarrow> int \<Rightarrow> (int \<times> string) list \<Rightarrow> prog_entry crawl_state
     \<Rightarrow> listing error + prog_entry crawl_state"
where
  "prog_day_loop srv T p year_int month_int [] s = Inr s"
| "prog_day_loop srv T p year_int month_int ((day_int, day_row_id) # rest) s =
     (if stop s then Inr s
      else
        (case post srv (p\<lparr>dir_url := day_row_id\<rparr>) s of
           Inl e \<Rightarrow> Inl e
         | Inr (response, s1) \<Rightarrow>
             (case mk_date year_int month_int day_int of
                Inl e \<Rightarrow> Inl e
              | Inr date_obj \<Rightarrow>
                  (let s2 = s1\<lparr>trace := trace s1 @ [Resolved date_obj]\<rparr>
                   in if date_lt date_obj T then Inr (s2\<lparr>stop := True\<rparr>)
                      else
                        (case prog_files_loop date_obj (files (body response))
                                (s2\<lparr>trace := trace s2 @
                                      [LogInfo (''Listing files of '' @ str_date date_obj)]\<rparr>) of
                           Inl e \<Rightarrow> Inl e
                         | Inr s3 \<Rightarrow> prog_day_loop srv T p year_int month_int rest s3)))))"

text \<open>\<open>for month_int, month_row_id in month_row_ids\<close>.\<close>

fun prog_month_loop ::
  "server \<Rightarrow> date \<Rightarrow> params \<Rightarrow> int \<Rightarrow> (int \<times> string) list \<Rightarrow> prog_entry crawl_state
     \<Rightarrow> listing error + prog_entry crawl_state"
where
  "prog_month_loop srv T p year_int [] s = Inr s"
| "prog_month_loop srv T p year_int ((month_int, month_row_id) # rest) s =
     (if stop s then Inr s
      else
        (case post srv (p\<lparr>dir_url := month_row_id\<rparr>) s of
           Inl e \<Rightarrow> Inl e
         | Inr (response, s1) \<Rightarrow>
             (case parse_rows day_key (links (body response)) of
                Inl e \<Rightarrow> Inl e
              | Inr day_row_ids \<Rightarrow>
                  (case prog_day_loop srv T p year_int month_int
                          (sorted_desc fst day_row_ids) s1 of
                     Inl e \<Rightarrow> Inl e
                   | Inr s2 \<Rightarrow> prog_month_loop srv T p year_int rest s2))))"

text \<open>\<open>for year_int, year_row_id in year_row_ids\<close>.\<close>

fun prog_year_loop ::
  "server \<Rightarrow> date \<Rightarrow> params \<Rightarrow> (int \<times> string) list \<Rightarrow> prog_entry crawl_state
     \<Rightarrow> listing error + prog_entry crawl_state"
where
  "prog_year_loop srv T p [] s = Inr s"
| "prog_year_loop srv T p ((year_int, year_row_id) # rest) s =
     (if stop s then Inr s
      else
        (case post srv (p\<lparr>dir_url := year_row_id\<rparr>) s of
           Inl e \<Rightarrow> Inl e
         | Inr (response, s1) \<Rightarrow>
             (case parse_rows month_key (links (body response)) of
                Inl e \<Rightarrow> Inl e
              | Inr month_row_ids \<Rightarrow>
                  (case prog_month_loop srv T p year_int
                          (sorted_desc fst month_row_ids) s1 of
                     Inl e \<Rightarrow> Inl e
                   | Inr s2 \<Rightarrow> prog_year_loop srv T p rest s2))))"

definition o_acute :: string where
  "o_acute = [CHR 0xC3, CHR 0xB3]"

definition operacion_dir :: string where
  "operacion_dir =
     ''Operaci'' @ o_acute @ ''n/Programa de Operaci'' @ o_acute @ ''n/''"

definition prog_params :: params where
  "prog_params =
     \<lparr>baseDirectory = operacion_dir @ ''Programa Diario/'',
      dir_url = operacion_dir @ ''Programa Diario/'',
      indicador = ''S'',
      initialLink = ''Programa de Operaci'' @ o_acute @ ''n Diario'',
      orderFolder = ''D''\<rparr>"

definition init_state :: "'e crawl_state" where
  "init_state = \<lparr>stop = False, dowload_urls_map = [], trace = []\<rparr>"

text \<open>
  The whole of \<open>get_urls_prog_dia\<close>, with the final state; the function itself returns
  \<open>dowload_urls_map\<close>.
\<close>

definition get_urls_prog_dia_run ::
  "server \<Rightarrow> date \<Rightarrow> listing error + prog_entry crawl_state"
where
  "get_urls_prog_dia_run srv start_date_threshold =
     (case post srv prog_params init_state of
        Inl e \<Rightarrow> Inl e
      | Inr (response, s1) \<Rightarrow>
          (case parse_rows year_key (links (body response)) of
             Inl e \<Rightarrow> Inl e
           | Inr year_row_ids \<Rightarrow>
               prog_year_loop srv start_date_threshold prog_params
                 (sorted_desc fst year_row_ids) s1))"

definition get_urls_prog_dia :: "server \<Rightarrow> date \<Rightarrow> listing error + prog_entry list" where
  "get_urls_prog_dia srv start_date_threshold =
     (case get_urls_prog_dia_run srv start_date_threshold of
        Inl e \<Rightarrow> Inl e
      | Inr s \<Rightarrow> Inr (dowload_urls_map s))"

subsection \<open>\<open>get_urls_reprog_dia\<close>\<close>

fun reprog_files_loop ::
  "date \<Rightarrow> string \<Rightarrow> string option list \<Rightarrow> reprog_entry crawl_state
     \<Rightarrow> listing error + reprog_entry crawl_state"
where
  "reprog_files_loop date_obj version [] s = Inr s"
| "reprog_files_loop date_obj version (link # rest) s =
     (case link of
        None \<Rightarrow> Inl (KeyError ''value'')
      | Some download_url \<Rightarrow>
          reprog_files_loop date_obj version rest
            (s\<lparr>dowload_urls_map :=
                 dowload_urls_map s @
                   [(date_obj, version, file_name download_url, download_url)]\<rparr>))"

text \<open>\<open>for reprog_version, reprog_row_id in reprog_row_ids\<close>.\<close>

fun reprog_version_loop ::
  "server \<Rightarrow> params \<Rightarrow> date \<Rightarrow> (string \<times> string) list \<Rightarrow> reprog_entry crawl_state
     \<Rightarrow> listing error + reprog_entry crawl_state"
where
  "reprog_version_loop srv p date_obj [] s = Inr s"
| "reprog_version_loop srv p date_obj ((version, reprog_row_id) # rest) s =
     (if stop s then Inr s
      else
        (case post srv (p\<lparr>dir_url := reprog_row_id\<rparr>) s of
           Inl e \<Rightarrow> Inl e
         | Inr (response, s1) \<Rightarrow>
             (case reprog_files_loop date_obj version (files (body response))
                     (s1\<lparr>trace := trace s1 @
                           [LogInfo (''Listing files of '' @ str_date date_obj @ '' - ''
                                       @ version)]\<rparr>) of
                Inl e \<Rightarrow> Inl e
              | Inr s2 \<Rightarrow> reprog_version_loop srv p date_obj rest s2)))"

fun reprog_day_loop ::
  "server \<Rightarrow> date \<Rightarrow> params \<Rightarrow> int \<Rightarrow> int \<Rightarrow> (int \<times> string) list \<Rightarrow> reprog_entry crawl_state
     \<Rightarrow> listing error + reprog_entry crawl_state"
where
  "reprog_day_loop srv T p year_int month_int [] s = Inr s"
| "reprog_day_loop srv T p year_int month_int ((day_int, day_row_id) # rest) s =
     (if stop s then Inr s
      else
        (case post srv (p\<lparr>dir_url := day_row_id\<rparr>) s of
           Inl e \<Rightarrow> Inl e
         | Inr (response, s1) \<Rightarrow>
             (case mk_date year_int month_int day_int of
                Inl e \<Rightarrow> Inl e
              | Inr date_obj \<Rightarrow>
                  (let s2 = s1\<lparr>trace := trace s1 @ [Resolved date_obj]\<rparr>
                   in if date_lt date_obj T then Inr (s2\<lparr>stop := True\<rparr>)
                      else
                        (case parse_rows reprog_key (links (body response)) of
                           Inl e \<Rightarrow> Inl e
                         | Inr reprog_row_ids \<Rightarrow>
                             (case reprog_version_loop srv p date_obj
                                     (sorted_desc fst reprog_row_ids) s2 of
                                Inl e \<Rightarrow> Inl e
                              | Inr s3 \<Rightarrow>
                                  reprog_day_loop srv T p year_int month_int rest s3))))))"

fun reprog_month_loop ::
  "server \<Rightarrow> date \<Rightarrow> params \<Rightarrow> int \<Rightarrow> (int \<times> string) list \<Rightarrow> reprog_entry crawl_state
     \<Rightarrow> listing error + reprog_entry crawl_state"
where
  "reprog_month_loop srv T p year_int [] s = Inr s"
| "reprog_month_loop srv T p year_int ((month_int, month_row_id) # rest) s =
     (if stop s then Inr s
      else
        (case post srv (p\<lparr>dir_url := month_row_id\<rparr>) s of
           Inl e \<Rightarrow> Inl e
         | Inr (response, s1) \<Rightarrow>
             (case parse_rows day_key (links (body response)) of
                Inl e \<Rightarrow> Inl e
              | Inr day_row_ids \<Rightarrow>
                  (case reprog_day_loop srv T p year_int month_int
                          (sorted_desc fst day_row_ids) s1 of
                     Inl e \<Rightarrow> Inl e
                   | Inr s2 \<Rightarrow> reprog_month_loop srv T p year_int rest s2))))"

fun reprog_year_loop ::
  "server \<Rightarrow> date \<Rightarrow> params \<Rightarrow> (int \<times> string) list \<Rightarrow> reprog_entry crawl_state
     \<Rightarrow> listing error + reprog_entry crawl_state"
where
  "reprog_year_loop srv T p [] s = Inr s"
| "reprog_year_loop srv T p ((year_int, year_row_id) # rest) s =
     (if stop s then Inr s
      else
        (case post srv (p\<lparr>dir_url := year_row_id\<rparr>) s of
           Inl e \<Rightarrow> Inl e
         | Inr (response, s1) \<Rightarrow>
             (case parse_rows month_key (links (body response)) of
                Inl e \<Rightarrow> Inl e
              | Inr month_row_ids \<Rightarrow>
                  (case reprog_month_loop srv T p year_int
                          (sorted_desc fst month_row_ids) s1 of
                     Inl e \<Rightarrow> Inl e
                   | Inr s2 \<Rightarrow> reprog_year_loop srv T p rest s2))))"

definition reprog_params :: params where
  "reprog_params =
     \<lparr>baseDirectory = operacion_dir @ ''Reprograma Diario Operaci'' @ o_acute @ ''n/'',
      dir_url = operacion_dir @ ''Reprograma Diario Operaci'' @ o_acute @ ''n/'',
      indicador = ''S'',
      initialLink = ''Reprograma Diario de Operaci'' @ o_acute @ ''n'',
      orderFolder = ''D''\<rparr>"

definition get_urls_reprog_dia_run ::
  "server \<Rightarrow> date \<Rightarrow> listing error + reprog_entry crawl_state"
where
  "get_urls_reprog_dia_run srv start_date_threshold =
     (case post srv reprog_params init_state of
        Inl e \<Rightarrow> Inl e
      | Inr (response, s1) \<Rightarrow>
          (case parse_rows year_key (links (body response)) of
             Inl e \<Rightarrow> Inl e
           | Inr year_row_ids \<Rightarrow>
               reprog_year_loop srv start_date_threshold reprog_params
                 (sorted_desc fst year_row_ids) s1))"

definition get_urls_reprog_dia :: "server \<Rightarrow> date \<Rightarrow> listing error + reprog_entry list" where
  "get_urls_reprog_dia srv start_date_threshold =
     (case get_urls_reprog_dia_run srv start_date_threshold of
        Inl e \<Rightarrow> Inl e
      | Inr s \<Rightarrow> Inr (dowload_urls_map s))"

section \<open>coes_downloader.py: tables\<close>

subsection \<open>Tables and the library functions that read them\<close>

text \<open>
  A timestamp: the wall-clock reading (date, hour, minute) and the time zone attached to
  it, if any.
\<close>

record naive_dt =
  on_date :: date
  hour :: int
  minute :: int

record tstamp =
  wall :: naive_dt
  tz :: "string option"

text \<open>
  JSON values as \<open>response.json()\<close> returns them. Numbers are kept as values of a type
  \<open>'n\<close> that the model does not look into. \<open>JObj\<close> is a \<open>dict\<close>: its keys are distinct
  and in insertion order.
\<close>

datatype 'n json =
    JNull
  | JBool bool
  | JNum 'n
  | JStr string
  | JArr "'n json list"
  | JObj "(string \<times> 'n json) list"

text \<open>
  A \<open>DataFrame\<close> with the default index: the column labels and the rows. The cells are
  text or missing (\<open>None\<close>) in the table \<open>pandas.read_csv(..., dtype=str)\<close> returns, and a
  JSON value or missing (\<open>None\<close>, for a key that a record does not have) in the table
  \<open>DataFrame.from_records\<close> builds.
\<close>

record 'c frame =
  columns :: "string list"
  data_rows :: "'c list list"

text \<open>
  The cells of the tables the program returns: missing (\<open>NaN\<close>, \<open>NaT\<close>, \<open>None\<close>), text, a
  number, a timestamp, or any other value.
\<close>

datatype 'n cell =
    NA
  | Str string
  | Num 'n
  | Time tstamp
  | Other "'n json"

text \<open>
  The body of a response of the data endpoints, as each parser the program applies to
  it reads it: the \<open>value\<close> attributes of the options of the \<open>select\<close> element with id
  \<open>cbEmpresas\<close> (\<open>None\<close> when there is no such element, and for an option without the
  attribute), the table \<open>pandas.read_csv(..., dtype=str)\<close> returns (\<open>None\<close> when it
  raises), and the value \<open>response.json()\<close> returns (\<open>None\<close> when it raises).
\<close>

record 'n views =
  select_options :: "string option list option"
  csv :: "string option frame option"
  json :: "'n json option"

type_synonym 'n tab_response = "'n views response"

text \<open>
  An exception of the table functions: one of the exceptions above, or an exception
  raised inside pandas, of which the model keeps only the name of the call that raised
  it, not its class or its message.
\<close>

datatype 'n failure = Raised "'n views error" | Pandas string

text \<open>
  The library functions whose results the model does not compute, taken as given:
  \<^item> \<open>strptime fmt s\<close>: how \<open>pandas.to_datetime(..., format=fmt)\<close> reads one text: a
    wall-clock reading, a missing value (\<open>NaT\<close>), or \<open>No_match\<close> when it raises;
  \<^item> \<open>is_nat v\<close>: whether \<open>to_datetime\<close> reads the number \<open>v\<close> as a missing value;
  \<^item> \<open>to_float s\<close>: the number \<open>pandas.to_numeric(..., errors="coerce")\<close> reads from one
    text, \<open>None\<close> when the result is \<open>NaN\<close>;
  \<^item> \<open>is_nan v\<close>: whether the number \<open>v\<close> is \<open>NaN\<close>, which is a missing value in a table;
  \<^item> \<open>zone_rule name t\<close>: whether the wall-clock reading \<open>t\<close> exists once, twice or not
    at all in the zone \<open>name\<close> of the time zone database;
  \<^item> \<open>columns_frame d\<close>: the table \<open>DataFrame.from_records\<close> builds from a \<open>dict\<close> of
    columns, \<open>None\<close> when it raises.
\<close>

datatype reading = Stamp naive_dt | NaT | No_match

datatype tz_status = Unique | Ambiguous | NonExistent

record 'n library =
  strptime :: "string \<Rightarrow> string \<Rightarrow> reading"
  is_nat :: "'n \<Rightarrow> bool"
  to_float :: "string \<Rightarrow> 'n option"
  is_nan :: "'n \<Rightarrow> bool"
  zone_rule :: "string \<Rightarrow> naive_dt \<Rightarrow> tz_status"
  columns_frame :: "(string \<times> 'n json) list \<Rightarrow> 'n json option frame option"

text \<open>
  A row read at the positions of the header: a row shorter than the header is missing
  at the end.
\<close>

definition row_cells :: "'c \<Rightarrow> nat \<Rightarrow> 'c list \<Rightarrow> 'c list" where
  "row_cells missing n r = map (\<lambda>j. if j < length r then r ! j else missing) [0..<n]"

definition drop_at :: "nat \<Rightarrow> 'a list \<Rightarrow> 'a list" where
  "drop_at j xs = take j xs @ drop (Suc j) xs"

text \<open>
  \<open>df[name]\<close> as the program uses it, for one column: \<open>KeyError\<close> without a column of
  that label; with several, \<open>df[name]\<close> is a table, on which \<open>to_datetime\<close> with a format
  raises.
\<close>

definition find_column :: "string \<Rightarrow> string list \<Rightarrow> 'n failure + nat" where
  "find_column name cols =
     (if name \<notin> set cols then Inl (Raised (KeyError name))
      else if count_list cols name \<noteq> 1 then Inl (Pandas ''to_datetime'')
      else Inr (length (takeWhile (\<lambda>c. c \<noteq> name) cols)))"

definition get_column :: "'c \<Rightarrow> nat \<Rightarrow> 'c frame \<Rightarrow> 'c list" where
  "get_column missing j df =
     map (\<lambda>r. row_cells missing (length (columns df)) r ! j) (data_rows df)"

text \<open>A function applied to the elements of a list in turn; the first exception ends it.\<close>

fun for_each :: "('a \<Rightarrow> 'e + 'b) \<Rightarrow> 'a list \<Rightarrow> 'e + 'b list" where
  "for_each f [] = Inr []"
| "for_each f (x # xs) =
     (case f x of
        Inl e \<Rightarrow> Inl e
      | Inr y \<Rightarrow>
          (case for_each f xs of
             Inl e \<Rightarrow> Inl e
           | Inr ys \<Rightarrow> Inr (y # ys)))"

text \<open>
  How \<open>pd.to_datetime(col, format=fmt)\<close> reads one value of a column: a missing value
  stays missing, a text is read with the format, a number is missing or does not match,
  and any other value is first written as text, which starts with a letter, a bracket or
  a brace and so matches neither of the formats used here.
\<close>

definition read_value :: "'n library \<Rightarrow> string \<Rightarrow> 'n json option \<Rightarrow> reading" where
  "read_value lib fmt c =
     (case c of
        None \<Rightarrow> NaT
      | Some JNull \<Rightarrow> NaT
      | Some (JStr s) \<Rightarrow> strptime lib fmt s
      | Some (JNum v) \<Rightarrow> (if is_nat lib v then NaT else No_match)
      | Some _ \<Rightarrow> No_match)"

text \<open>\<open>pd.to_datetime(col, format=fmt)\<close>: a column of readings without zone.\<close>

definition to_datetime ::
  "'n library \<Rightarrow> string \<Rightarrow> 'n json option list \<Rightarrow> 'n failure + naive_dt option list"
where
  "to_datetime lib fmt col =
     for_each (\<lambda>c. case read_value lib fmt c of
                      Stamp t \<Rightarrow> Inr (Some t)
                    | NaT \<Rightarrow> Inr None
                    | No_match \<Rightarrow> Inl (Pandas ''to_datetime'')) col"

text \<open>
  \<open>col.dt.tz_localize(zone)\<close> on a column of readings without zone: the zone is attached
  to the wall-clock reading, which stays as it is; a reading that the zone has twice or
  not at all raises.
\<close>

definition tz_localize ::
  "'n library \<Rightarrow> string \<Rightarrow> naive_dt option list \<Rightarrow> 'n failure + tstamp option list"
where
  "tz_localize lib zone col =
     for_each (\<lambda>c. case c of
                      None \<Rightarrow> Inr None
                    | Some t \<Rightarrow>
                        (case zone_rule lib zone t of
                           Unique \<Rightarrow> Inr (Some \<lparr>wall = t, tz = Some zone\<rparr>)
                         | Ambiguous \<Rightarrow> Inl (Pandas ''tz_localize'')
                         | NonExistent \<Rightarrow> Inl (Pandas ''tz_localize''))) col"

text \<open>A \<open>DataFrame\<close> after \<open>set_index\<close>: each row is its key and its other cells.\<close>

record ('k, 'c) keyed =
  key_name :: string
  key_cols :: "string list"
  key_rows :: "('k \<times> 'c list) list"

text \<open>
  \<open>df[name] = col\<close> followed by \<open>df.set_index(name)\<close>, for the column at position \<open>j\<close>:
  the column assigned becomes the key of the rows, the other columns stay.
\<close>

definition set_index :: "nat \<Rightarrow> 'k list \<Rightarrow> 'c \<Rightarrow> 'c frame \<Rightarrow> ('k, 'c) keyed" where
  "set_index j col missing df =
     \<lparr>key_name = columns df ! j,
      key_cols = drop_at j (columns df),
      key_rows = zip col (map (\<lambda>r. drop_at j (row_cells missing (length (columns df)) r))
                            (data_rows df))\<rparr>"

text \<open>\<open>pd.to_numeric(..., errors="coerce")\<close> on one cell of text.\<close>

definition to_numeric :: "'n library \<Rightarrow> string option \<Rightarrow> 'n option" where
  "to_numeric lib c = (case c of None \<Rightarrow> None | Some s \<Rightarrow> to_float lib s)"

text \<open>\<open>df.apply(pd.to_numeric, axis=1, errors="coerce")\<close>: row by row, the key apart.\<close>

definition apply_to_numeric ::
  "'n library \<Rightarrow> ('k, string option) keyed \<Rightarrow> ('k, 'n option) keyed"
where
  "apply_to_numeric lib k =
     \<lparr>key_name = key_name k, key_cols = key_cols k,
      key_rows = map (\<lambda>(t, cs). (t, map (to_numeric lib) cs)) (key_rows k)\<rparr>"

text \<open>\<open>df.dropna(axis=0, how="all")\<close>: a row goes when all its cells are missing.\<close>

definition dropna_all :: "('k, 'n option) keyed \<Rightarrow> ('k, 'n option) keyed" where
  "dropna_all k =
     \<lparr>key_name = key_name k, key_cols = key_cols k,
      key_rows = filter (\<lambda>(t, cs). list_ex (\<lambda>c. c \<noteq> None) cs) (key_rows k)\<rparr>"

definition time_cell :: "tstamp option \<Rightarrow> 'n cell" where
  "time_cell c = (case c of None \<Rightarrow> NA | Some t \<Rightarrow> Time t)"

definition naive :: "naive_dt \<Rightarrow> tstamp" where
  "naive t = \<lparr>wall = t, tz = None\<rparr>"

definition num_cell :: "'n option \<Rightarrow> 'n cell" where
  "num_cell c = (case c of None \<Rightarrow> NA | Some v \<Rightarrow> Num v)"

text \<open>\<open>df.reset_index()\<close>: the key comes back as the first column.\<close>

definition reset_index :: "(naive_dt option, 'n option) keyed \<Rightarrow> 'n cell frame" where
  "reset_index k =
     \<lparr>columns = key_name k # key_cols k,
      data_rows = map (\<lambda>(t, cs). time_cell (map_option naive t) # map num_cell cs)
                    (key_rows k)\<rparr>"

subsection \<open>\<open>get_medidores_generacion\<close>\<close>

text \<open>
  \<open>d.strftime("%d/%m/%Y")\<close>: day and month with two digits, the year as the C library
  writes it, without padding.
\<close>

definition strftime_dmy :: "date \<Rightarrow> string" where
  "strftime_dmy d =
     pad_left 2 (str_int (day d)) @ ''/'' @ pad_left 2 (str_int (month d)) @ ''/''
       @ str_int (year d)"

text \<open>\<open>sep.join(xs)\<close>.\<close>

fun join :: "string \<Rightarrow> string list \<Rightarrow> string" where
  "join sep [] = []"
| "join sep [x] = x"
| "join sep (x # y # ys) = x @ sep @ join sep (y # ys)"

text \<open>\<open>[i.attrs["value"] for i in ...find_all("option")]\<close>.\<close>

definition option_values :: "string option list \<Rightarrow> 'n failure + string list" where
  "option_values opts =
     for_each (\<lambda>a. case a of None \<Rightarrow> Inl (Raised (KeyError ''value'')) | Some v \<Rightarrow> Inr v) opts"

record export_params =
  fechaInicial :: string
  fechaFinal :: string
  empresas :: string
  central :: int
  parametros :: int
  tipo :: int

text \<open>
  The three requests of \<open>get_medidores_generacion\<close>, each a transport exception or a
  response: the list of companies, the export, and the download.
\<close>

record 'n medidores_session =
  post_empresas :: "'n views error + 'n tab_response"
  post_exportar :: "export_params \<Rightarrow> 'n views error + 'n tab_response"
  get_descargar :: "'n views error + 'n tab_response"

text \<open>\<open>res = session.post(...); _raise_for_status(res)\<close>.\<close>

definition checked :: "'n views error + 'n tab_response \<Rightarrow> 'n failure + 'n tab_response" where
  "checked answer =
     (case answer of
        Inl e \<Rightarrow> Inl (Raised e)
      | Inr res \<Rightarrow>
          (case raise_for_status res of
             Inl e \<Rightarrow> Inl (Raised e)
           | Inr _ \<Rightarrow> Inr res))"

text \<open>Lines 69 to 76: from the table \<open>read_csv\<close> returned to the result.\<close>

definition normalize_medidores ::
  "'n library \<Rightarrow> string option frame \<Rightarrow> 'n failure + 'n cell frame"
where
  "normalize_medidores lib data0 =
     (let data = data0\<lparr>columns := map strip_space (columns data0)\<rparr>
      in case find_column ''fechahora'' (columns data) of
           Inl e \<Rightarrow> Inl e
         | Inr j \<Rightarrow>
             (case to_datetime lib ''%d/%m/%Y %H:%M''
                     (map (map_option JStr) (get_column None j data)) of
                Inl e \<Rightarrow> Inl e
              | Inr fechahora \<Rightarrow>
                  Inr (reset_index
                         (dropna_all
                            (apply_to_numeric lib (set_index j fechahora None data))))))"

definition get_medidores_generacion ::
  "'n library \<Rightarrow> 'n medidores_session \<Rightarrow> date \<Rightarrow> date \<Rightarrow> 'n failure + 'n cell frame"
where
  "get_medidores_generacion lib session start end_date =
     (let start_str = strftime_dmy start;
          end_str = strftime_dmy end_date
      in case checked (post_empresas session) of
           Inl e \<Rightarrow> Inl e
         | Inr res \<Rightarrow>
             (case select_options (body res) of
                None \<Rightarrow> Inl (Raised (AttributeError ''find_all''))
              | Some opts \<Rightarrow>
                  (case option_values opts of
                     Inl e \<Rightarrow> Inl e
                   | Inr id_empresas \<Rightarrow>
                       (case checked (post_exportar session
                                        \<lparr>fechaInicial = start_str, fechaFinal = end_str,
                                         empresas = join '','' id_empresas,
                                         central = 1, parametros = 1, tipo = 3\<rparr>) of
                          Inl e \<Rightarrow> Inl e
                        | Inr res2 \<Rightarrow>
                            (case checked (get_descargar session) of
                               Inl e \<Rightarrow> Inl e
                             | Inr res3 \<Rightarrow>
                                 (case csv (body res3) of
                                    None \<Rightarrow> Inl (Pandas ''read_csv'')
                                  | Some data \<Rightarrow> normalize_medidores lib data))))))"

subsection \<open>\<open>get_demanda_ejecutado\<close> and \<open>process_demanda_ejecutado\<close>\<close>

text \<open>
  The calls of \<open>logger.info\<close> and \<open>logger.exception\<close>. \<open>Log_exception m e\<close> is the call of
  \<open>logger.exception\<close> with the message \<open>m\<close> followed by \<open>str(e)\<close>. The elapsed times
  written into two of the messages are readings of the clock and are left out.
\<close>

datatype 'n log_record = Log_info string | Log_exception string "'n failure"

text \<open>The words \<open>demanda ejecutado\<close> in single quotes, as the messages have them.\<close>

definition demanda_ejecutado :: string where
  "demanda_ejecutado = [CHR 0x27] @ ''demanda ejecutado'' @ [CHR 0x27]"

text \<open>\<open>session.post\<close> on the demand endpoint as a function of the two parameters sent.\<close>

type_synonym 'n demanda_session = "string \<Rightarrow> string \<Rightarrow> 'n views error + 'n tab_response"

text \<open>The \<open>try\<close> block of \<open>get_demanda_ejecutado\<close>.\<close>

definition fetch_demanda ::
  "'n demanda_session \<Rightarrow> date \<Rightarrow> date \<Rightarrow> 'n failure + 'n tab_response"
where
  "fetch_demanda session start end_date =
     (let start_str = strftime_dmy start;
          end_str = strftime_dmy end_date
      in checked (session start_str end_str))"

text \<open>
  The function with its \<open>except Exception\<close> handler. Every exception of the model is a
  subclass of \<open>Exception\<close>, so the handler takes them all; the result is \<open>Inr\<close> of the
  value returned and the log, \<open>Inl\<close> standing for an exception that leaves the function.
\<close>

definition get_demanda_ejecutado ::
  "'n demanda_session \<Rightarrow> date \<Rightarrow> date \<Rightarrow> 'n log_record list
     \<Rightarrow> 'n failure + ('n tab_response option \<times> 'n log_record list)"
where
  "get_demanda_ejecutado session start end_date log =
     (let log1 = log @ [Log_info (''Requesting '' @ demanda_ejecutado @ '' from '' @ str_date start
                                    @ '' to '' @ str_date end_date)]
      in case fetch_demanda session start end_date of
           Inl e \<Rightarrow>
             Inr (None,
                  log1 @ [Log_exception
                            (''Exception while requesting '' @ demanda_ejecutado @ '':''
                               @ [CHR 0x0A]) e])
         | Inr response_demanda_ejecutado \<Rightarrow>
             Inr (Some response_demanda_ejecutado,
                  log1 @ [Log_info (''Successfully fetched '' @ demanda_ejecutado @ ''.'')]))"

text \<open>\<open>obj["Data"]\<close> on a JSON value.\<close>

definition subscript :: "'n json \<Rightarrow> string \<Rightarrow> 'n failure + 'n json" where
  "subscript obj k =
     (case obj of
        JObj kvs \<Rightarrow>
          (case map_of kvs k of None \<Rightarrow> Inl (Raised (KeyError k)) | Some v \<Rightarrow> Inr v)
      | _ \<Rightarrow> Inl (Raised (TypeError ''subscript'')))"

fun is_JObj :: "'n json \<Rightarrow> bool" where
  "is_JObj (JObj kvs) = True"
| "is_JObj v = False"

fun fields :: "'n json \<Rightarrow> (string \<times> 'n json) list" where
  "fields (JObj kvs) = kvs"
| "fields v = []"

text \<open>
  The table of a list of records: the columns are the keys in the order of their first
  appearance, one row a record, a key a record does not have is missing in its row.
\<close>

definition first_seen :: "'a list \<Rightarrow> 'a list" where
  "first_seen xs = rev (remdups (rev xs))"

definition frame_of_records :: "'n json list \<Rightarrow> 'n json option frame" where
  "frame_of_records recs =
     (let cols = first_seen (concat (map (\<lambda>r. map fst (fields r)) recs))
      in \<lparr>columns = cols,
          data_rows = map (\<lambda>r. map (map_of (fields r)) cols) recs\<rparr>)"

text \<open>
  \<open>pd.DataFrame.from_records(data)\<close>. A list of records gives their table, the empty
  list the empty table; a \<open>dict\<close> is read as columns by the library. For any other value
  \<open>from_records\<close> raises, or the table it builds has numbered columns and \<open>df["Fecha"]\<close>
  raises on it: \<open>Pandas ''from_records''\<close> stands for the exception that ends the \<open>try\<close>
  block then.
\<close>

definition from_records :: "'n library \<Rightarrow> 'n json \<Rightarrow> 'n failure + 'n json option frame" where
  "from_records lib data =
     (case data of
        JArr recs \<Rightarrow>
          (if list_all is_JObj recs then Inr (frame_of_records recs)
           else Inl (Pandas ''from_records''))
      | JObj cols \<Rightarrow>
          (case columns_frame lib cols of
             None \<Rightarrow> Inl (Pandas ''from_records'')
           | Some df \<Rightarrow> Inr df)
      | _ \<Rightarrow> Inl (Pandas ''from_records''))"

text \<open>A value of a table of JSON values as a cell.\<close>

definition value_cell :: "'n library \<Rightarrow> 'n json option \<Rightarrow> 'n cell" where
  "value_cell lib c =
     (case c of
        None \<Rightarrow> NA
      | Some JNull \<Rightarrow> NA
      | Some (JNum v) \<Rightarrow> (if is_nan lib v then NA else Num v)
      | Some (JStr s) \<Rightarrow> Str s
      | Some v \<Rightarrow> Other v)"

text \<open>\<open>df[name] = col\<close> for the column at position \<open>j\<close> and a column of timestamps.\<close>

definition set_column ::
  "'n library \<Rightarrow> nat \<Rightarrow> tstamp option list \<Rightarrow> 'n json option frame \<Rightarrow> 'n cell frame"
where
  "set_column lib j col df =
     \<lparr>columns = columns df,
      data_rows = map (\<lambda>(r, c). (map (value_cell lib) (row_cells None (length (columns df)) r))
                                   [j := time_cell c])
                    (zip (data_rows df) col)\<rparr>"

text \<open>
  The \<open>try\<close> block of \<open>process_demanda_ejecutado\<close>; \<open>tz_local\<close> is the zone America/Lima.
  The column read back for \<open>tz_localize\<close> is the one the line before assigned.
\<close>

definition tz_local :: string where
  "tz_local = ''America/Lima''"

definition process_demanda ::
  "'n library \<Rightarrow> 'n tab_response \<Rightarrow> 'n failure + 'n cell frame"
where
  "process_demanda lib response_demanda_ejecutado =
     (case json (body response_demanda_ejecutado) of
        None \<Rightarrow> Inl (Raised (ValueError ''JSONDecodeError''))
      | Some response_demanda_ejecutado_json_obj \<Rightarrow>
          (case subscript response_demanda_ejecutado_json_obj ''Data'' of
             Inl e \<Rightarrow> Inl e
           | Inr demanda_ejecutado_json \<Rightarrow>
               (case from_records lib demanda_ejecutado_json of
                  Inl e \<Rightarrow> Inl e
                | Inr df \<Rightarrow>
                    (case find_column ''Fecha'' (columns df) of
                       Inl e \<Rightarrow> Inl e
                     | Inr j \<Rightarrow>
                         (case to_datetime lib ''%Y/%m/%d %H:%M'' (get_column None j df) of
                            Inl e \<Rightarrow> Inl e
                          | Inr fecha \<Rightarrow>
                              (case tz_localize lib tz_local fecha of
                                 Inl e \<Rightarrow> Inl e
                               | Inr fecha_local \<Rightarrow>
                                   Inr (set_column lib j fecha_local df)))))))"

definition process_demanda_ejecutado ::
  "'n library \<Rightarrow> 'n tab_response \<Rightarrow> 'n log_record list
     \<Rightarrow> 'n failure + ('n cell frame option \<times> 'n log_record list)"
where
  "process_demanda_ejecutado lib response_demanda_ejecutado log =
     (let log1 = log @ [Log_info (''Processing '' @ demanda_ejecutado)]
      in case process_demanda lib response_demanda_ejecutado of
           Inl e \<Rightarrow>
             Inr (None,
                  log1 @ [Log_exception
                            (''Exception while processing '' @ demanda_ejecutado @ '':''
                               @ [CHR 0x0A]) e])
         | Inr df \<Rightarrow>
             Inr (Some df,
                  log1 @ [Log_info (''Successfully processed '' @ demanda_ejecutado @ ''.'')]))"

section \<open>Reading a crawl\<close>

text \<open>
  Predicates and measures used to state the properties of the crawlers; they are not
  part of the program.
\<close>

fun is_Post :: "event \<Rightarrow> bool" where
  "is_Post (Post q) = True"
| "is_Post (Resolved d) = False"
| "is_Post (LogInfo m) = False"

text \<open>The number of listing requests of a run, \<open>None\<close> when the run raised.\<close>

definition requests_issued :: "listing error + 'e crawl_state \<Rightarrow> nat option" where
  "requests_issued r =
     (case r of Inl e \<Rightarrow> None | Inr s \<Rightarrow> Some (length (filter is_Post (trace s))))"

definition stopped :: "listing error + 'e crawl_state \<Rightarrow> bool option" where
  "stopped r = (case r of Inl e \<Rightarrow> None | Inr s \<Rightarrow> Some (stop s))"

definition events :: "listing error + 'e crawl_state \<Rightarrow> event list" where
  "events r = (case r of Inl e \<Rightarrow> [] | Inr s \<Rightarrow> trace s)"

text \<open>No date of the events is earlier than the threshold.\<close>

definition no_breach :: "date \<Rightarrow> event list \<Rightarrow> bool" where
  "no_breach T tr = (\<forall>d. Resolved d \<in> set tr \<longrightarrow> \<not> date_lt d T)"

text \<open>
  The loop invariant of both crawlers: every recorded entry is dated at or after the
  threshold, and \<open>stop\<close> is set exactly when the last event is the first date earlier
  than the threshold.
\<close>

definition crawl_inv :: "date \<Rightarrow> (date \<times> 'x) crawl_state \<Rightarrow> bool" where
  "crawl_inv T s =
     ((\<forall>e \<in> set (dowload_urls_map s). \<not> date_lt (fst e) T)
      \<and> (if stop s then (\<exists>tr d. trace s = tr @ [Resolved d] \<and> date_lt d T \<and> no_breach T tr)
         else no_breach T (trace s)))"

text \<open>
  What a server lists at a directory: the number of link elements, and their
  identifiers.
\<close>

definition n_links :: "server \<Rightarrow> params \<Rightarrow> nat" where
  "n_links srv q = (case srv q of Inl e \<Rightarrow> 0 | Inr r \<Rightarrow> length (links (body r)))"

definition link_ids :: "server \<Rightarrow> params \<Rightarrow> string list" where
  "link_ids srv q =
     (case srv q of Inl e \<Rightarrow> [] | Inr r \<Rightarrow> List.map_filter (\<lambda>a. a) (links (body r)))"

text \<open>The number of requests among the events of a state.\<close>

definition n_posts :: "'e crawl_state \<Rightarrow> nat" where
  "n_posts s = length (filter is_Post (trace s))"

text \<open>
  A listing tree in which the base directory lists \<open>N\<close> years, every year \<open>M\<close>
  months and every month \<open>D\<close> days; and one in which every day lists \<open>V\<close> versions.
\<close>

definition regular_tree :: "server \<Rightarrow> params \<Rightarrow> nat \<Rightarrow> nat \<Rightarrow> nat \<Rightarrow> bool" where
  "regular_tree srv p N M D =
     (n_links srv p = N
      \<and> (\<forall>y \<in> set (link_ids srv p).
            n_links srv (p\<lparr>dir_url := y\<rparr>) = M
            \<and> (\<forall>m \<in> set (link_ids srv (p\<lparr>dir_url := y\<rparr>)).
                  n_links srv (p\<lparr>dir_url := m\<rparr>) = D)))"

definition regular_days :: "server \<Rightarrow> params \<Rightarrow> nat \<Rightarrow> bool" where
  "regular_days srv p V =
     (\<forall>y \<in> set (link_ids srv p).
        \<forall>m \<in> set (link_ids srv (p\<lparr>dir_url := y\<rparr>)).
          \<forall>d \<in> set (link_ids srv (p\<lparr>dir_url := m\<rparr>)).
            n_links srv (p\<lparr>dir_url := d\<rparr>) = V)"

text \<open>
  The order of a returned list: the dates never increase along the list, and among the
  entries of one date the version labels never increase.
\<close>

definition newest_first :: "(date \<times> 'x) list \<Rightarrow> bool" where
  "newest_first es = sorted_wrt (\<lambda>a b. \<not> date_lt (fst a) (fst b)) es"

definition versions_descend :: "reprog_entry list \<Rightarrow> bool" where
  "versions_descend es = sorted_wrt (\<lambda>a b. fst a = fst b \<longrightarrow> fst (snd b) \<le> fst (snd a)) es"

text \<open>
  The keys the crawler reads from the listing of a directory; and the listings of a
  server having no two years, no two months of a year, or no two days of a month with
  the same key.
\<close>

definition keys_at :: "(string \<Rightarrow> listing error + 'k) \<Rightarrow> server \<Rightarrow> params \<Rightarrow> 'k list" where
  "keys_at key srv q =
     (case srv q of
        Inl e \<Rightarrow> []
      | Inr r \<Rightarrow>
          (case parse_rows key (links (body r)) of
             Inl e \<Rightarrow> []
           | Inr rows \<Rightarrow> map fst rows))"

definition distinct_dirs :: "server \<Rightarrow> params \<Rightarrow> bool" where
  "distinct_dirs srv p =
     (distinct (keys_at year_key srv p)
      \<and> (\<forall>y \<in> set (link_ids srv p). distinct (keys_at month_key srv (p\<lparr>dir_url := y\<rparr>))))"

definition distinct_days :: "server \<Rightarrow> params \<Rightarrow> bool" where
  "distinct_days srv p =
     (\<forall>y \<in> set (link_ids srv p).
        \<forall>m \<in> set (link_ids srv (p\<lparr>dir_url := y\<rparr>)).
          distinct (keys_at day_key srv (p\<lparr>dir_url := m\<rparr>)))"

text \<open>
  The last token of an identifier: what follows its last space or slash once the slashes
  at both ends are removed (the whole of it when there is neither).
\<close>

definition last_token :: "string \<Rightarrow> string" where
  "last_token i =
     rev (takeWhile (\<lambda>c. c \<noteq> CHR '' '' \<and> c \<noteq> CHR ''/'') (rev (strip_char CHR ''/'' i)))"

text \<open>
  Where an entry of \<open>get_urls_reprog_dia\<close> comes from: the directory \<open>j\<close> lists the link
  \<open>i\<close>, the listing of \<open>i\<close> holds the entry's download URL, the entry's version label is
  the one computed from \<open>i\<close> and its file name is the one computed from the URL.
\<close>

definition entry_of :: "server \<Rightarrow> params \<Rightarrow> string \<Rightarrow> string \<Rightarrow> reprog_entry \<Rightarrow> bool" where
  "entry_of srv p j i e =
     (case srv (p\<lparr>dir_url := j\<rparr>) of
        Inl _ \<Rightarrow> False
      | Inr rj \<Rightarrow>
          (case srv (p\<lparr>dir_url := i\<rparr>) of
             Inl _ \<Rightarrow> False
           | Inr ri \<Rightarrow>
               Some i \<in> set (links (body rj))
               \<and> Some (snd (snd (snd e))) \<in> set (files (body ri))
               \<and> fst (snd e) = reprog_version i
               \<and> fst (snd (snd e)) = file_name (snd (snd (snd e)))))"

definition all_entries_of :: "server \<Rightarrow> params \<Rightarrow> reprog_entry crawl_state \<Rightarrow> bool" where
  "all_entries_of srv p s = (\<forall>e \<in> set (dowload_urls_map s). \<exists>j i. entry_of srv p j i e)"

subsection \<open>Example portals\<close>

definition ok_listing :: "string list \<Rightarrow> string list \<Rightarrow> listing response" where
  "ok_listing ls fs =
     \<lparr>status_code = 200, reason = ''OK'',
      url = ''https://www.coes.org.pe/Portal/browser/vistadatos'',
      body = \<lparr>links = map Some ls, files = map Some fs\<rparr>\<rparr>"

definition not_found :: "listing response" where
  "not_found =
     \<lparr>status_code = 404, reason = ''Not Found'',
      url = ''https://www.coes.org.pe/Portal/browser/vistadatos'',
      body = \<lparr>links = [], files = []\<rparr>\<rparr>"

text \<open>
  A server given by its directories: each with the identifiers of its links and the
  download URLs of its files. A directory it does not have answers 404.
\<close>

definition serve :: "(string \<times> string list \<times> string list) list \<Rightarrow> server" where
  "serve tree q =
     (case map_of tree (dir_url q) of
        None \<Rightarrow> Inr not_found
      | Some (ls, fs) \<Rightarrow> Inr (ok_listing ls fs))"

text \<open>
  A portal with the years 2023 and 2024, listed in ascending order. With the threshold
  2024-01-31 both crawlers read 2024 down to 30 January and never open 2023.
\<close>

definition demo_portal :: server where
  "demo_portal = serve
     [(dir_url prog_params, [''P/2023/'', ''P/2024/''], []),
      (''P/2024/'', [''P/2024/01_Enero/'', ''P/2024/02_Febrero/''], []),
      (''P/2024/02_Febrero/'', [''P/2024/02_Febrero/Dia 01/''], []),
      (''P/2024/02_Febrero/Dia 01/'', [], [''/f/p0201.xlsx'']),
      (''P/2024/01_Enero/'', [''P/2024/01_Enero/Dia 30/'', ''P/2024/01_Enero/Dia 31/''], []),
      (''P/2024/01_Enero/Dia 31/'', [], [''/f/p0131a.xlsx'', ''/f/p0131b.xlsx'']),
      (''P/2024/01_Enero/Dia 30/'', [], [''/f/p0130.xlsx'']),
      (''P/2023/'', [''P/2023/12_Diciembre/''], []),
      (dir_url reprog_params, [''R/2023/'', ''R/2024/''], []),
      (''R/2024/'', [''R/2024/01_Enero/''], []),
      (''R/2024/01_Enero/'', [''R/2024/01_Enero/Dia 30/'', ''R/2024/01_Enero/Dia 31/''], []),
      (''R/2024/01_Enero/Dia 31/'',
         [''R/2024/01_Enero/Dia 31/Reprog 0131A/'', ''R/2024/01_Enero/Dia 31/Reprog 0131B/''], []),
      (''R/2024/01_Enero/Dia 31/Reprog 0131A/'', [], [''/f/r0131a.xlsx'']),
      (''R/2024/01_Enero/Dia 31/Reprog 0131B/'', [], [''/f/r0131b.xlsx'']),
      (''R/2024/01_Enero/Dia 30/'', [''R/2024/01_Enero/Dia 30/Reprog 0130A/''], []),
      (''R/2024/01_Enero/Dia 30/Reprog 0130A/'', [], [''/f/r0130a.xlsx'']),
      (''R/2023/'', [''R/2023/12_Diciembre/''], [])]"

definition demo_T :: date where
  "demo_T = \<lparr>year = 2024, month = 1, day = 31\<rparr>"

text \<open>
  A regular portal: for the daily programs two years of one month of two days each,
  for the reprograms one year of one month of one day with two versions. The threshold
  2000-01-01 is earlier than every date of it.
\<close>

definition uniform_portal :: server where
  "uniform_portal = serve
     [(dir_url prog_params, [''P/2024/'', ''P/2023/''], []),
      (''P/2024/'', [''P/2024/01_Enero/''], []),
      (''P/2024/01_Enero/'', [''P/2024/01_Enero/Dia 02/'', ''P/2024/01_Enero/Dia 01/''], []),
      (''P/2024/01_Enero/Dia 02/'', [], [''/f/p240102.xlsx'']),
      (''P/2024/01_Enero/Dia 01/'', [], [''/f/p240101.xlsx'']),
      (''P/2023/'', [''P/2023/12_Diciembre/''], []),
      (''P/2023/12_Diciembre/'',
         [''P/2023/12_Diciembre/Dia 31/'', ''P/2023/12_Diciembre/Dia 30/''], []),
      (''P/2023/12_Diciembre/Dia 31/'', [], [''/f/p231231.xlsx'']),
      (''P/2023/12_Diciembre/Dia 30/'', [], [''/f/p231230.xlsx'']),
      (dir_url reprog_params, [''R/2024/''], []),
      (''R/2024/'', [''R/2024/01_Enero/''], []),
      (''R/2024/01_Enero/'', [''R/2024/01_Enero/Dia 01/''], []),
      (''R/2024/01_Enero/Dia 01/'',
         [''R/2024/01_Enero/Dia 01/Reprog 0101B/'', ''R/2024/01_Enero/Dia 01/Reprog 0101A/''], []),
      (''R/2024/01_Enero/Dia 01/Reprog 0101B/'', [], [''/f/r0101b.xlsx'']),
      (''R/2024/01_Enero/Dia 01/Reprog 0101A/'', [], [''/f/r0101a.xlsx''])]"

definition early_T :: date where
  "early_T = \<lparr>year = 2000, month = 1, day = 1\<rparr>"

text \<open>
  A portal whose year 2024 lists January twice, under two names with the same key.
\<close>

definition tied_portal :: server where
  "tied_portal = serve
     [(dir_url prog_params, [''P/2024/''], []),
      (''P/2024/'', [''P/2024/01_Enero/'', ''P/2024/01_January/''], []),
      (''P/2024/01_Enero/'', [''P/2024/01_Enero/Dia 02/'', ''P/2024/01_Enero/Dia 01/''], []),
      (''P/2024/01_Enero/Dia 02/'', [], [''/f/es0102.xlsx'']),
      (''P/2024/01_Enero/Dia 01/'', [], [''/f/es0101.xlsx'']),
      (''P/2024/01_January/'',
         [''P/2024/01_January/Day 02/'', ''P/2024/01_January/Day 01/''], []),
      (''P/2024/01_January/Day 02/'', [], [''/f/en0102.xlsx'']),
      (''P/2024/01_January/Day 01/'', [], [''/f/en0101.xlsx''])]"

section \<open>Reading a table\<close>

text \<open>
  Predicates and functions used to state the properties of the tables; they are not
  part of the program. \<open>stamp_of zone rd\<close> is the cell of a reading: the timestamp with
  the zone attached, or a missing cell.
\<close>

definition stamp_of :: "string option \<Rightarrow> reading \<Rightarrow> 'n cell" where
  "stamp_of zone rd = (case rd of Stamp t \<Rightarrow> Time \<lparr>wall = t, tz = zone\<rparr> | _ \<Rightarrow> NA)"

text \<open>The reading as a column of readings without zone has it.\<close>

definition stamp_opt :: "reading \<Rightarrow> naive_dt option" where
  "stamp_opt rd = (case rd of Stamp t \<Rightarrow> Some t | _ \<Rightarrow> None)"

text \<open>
  A row of the CSV table with \<open>n\<close> columns, the timestamp at position \<open>j\<close>: its numbers,
  whether it is kept, and the row it becomes.
\<close>

definition numeric_cells :: "'n library \<Rightarrow> nat \<Rightarrow> nat \<Rightarrow> string option list \<Rightarrow> 'n option list" where
  "numeric_cells lib j n r = map (to_numeric lib) (drop_at j (row_cells None n r))"

definition kept_row :: "'n library \<Rightarrow> nat \<Rightarrow> nat \<Rightarrow> string option list \<Rightarrow> bool" where
  "kept_row lib j n r = list_ex (\<lambda>c. c \<noteq> None) (numeric_cells lib j n r)"

definition normal_row :: "'n library \<Rightarrow> nat \<Rightarrow> nat \<Rightarrow> string option list \<Rightarrow> 'n cell list" where
  "normal_row lib j n r =
     stamp_of None (read_value lib ''%d/%m/%Y %H:%M'' (map_option JStr (row_cells None n r ! j)))
       # map num_cell (numeric_cells lib j n r)"





subsection \<open>Example tables\<close>

definition json_response :: "'n json option \<Rightarrow> 'n tab_response" where
  "json_response j =
     \<lparr>status_code = 200, reason = ''OK'',
      url = ''https://www.coes.org.pe/Portal/portalinformacion/Demanda'',
      body = \<lparr>select_options = None, csv = None, json = j\<rparr>\<rparr>"

definition timed_out :: "'n demanda_session" where
  "timed_out a b = Inl (Transport ''Read timed out. (read timeout=90)'')"

text \<open>
  A library for the examples. Numbers are decimals, written as a pair of the digits and
  the number of digits after the point: \<open>12.5\<close> is \<open>(125, 1)\<close>. Timestamps are read in
  the two formats of the program, and every reading exists once in every zone.
\<close>

definition demo_decimal :: "string \<Rightarrow> (int \<times> nat) option" where
  "demo_decimal s =
     (let (neg, u) = (case s of c # t \<Rightarrow> if c = CHR ''-'' then (True, t) else (False, s)
                              | [] \<Rightarrow> (False, s));
          parts = split_on CHR ''.'' u;
          ds = concat parts
      in if length parts \<le> 2 \<and> ds \<noteq> [] \<and> list_all is_digit ds
         then Some ((if neg then - int_of_digits ds else int_of_digits ds),
                    length (concat (tl parts)))
         else None)"

definition demo_strptime :: "string \<Rightarrow> string \<Rightarrow> reading" where
  "demo_strptime fmt s =
     (if s = [] then NaT
      else
        (case map (split_on CHR ''/'') (split_on CHR '' '' s) of
           [[a, b, c], [hm]] \<Rightarrow>
             (case split_on CHR '':'' hm of
                [h, mi] \<Rightarrow>
                  if list_all (\<lambda>w. w \<noteq> [] \<and> list_all is_digit w) [a, b, c, h, mi]
                     \<and> int_of_digits h < 24 \<and> int_of_digits mi < 60
                  then
                    (case (if fmt = ''%d/%m/%Y %H:%M''
                           then mk_date (int_of_digits c) (int_of_digits b) (int_of_digits a)
                           else mk_date (int_of_digits a) (int_of_digits b) (int_of_digits c)
                             :: unit error + date) of
                       Inl e \<Rightarrow> No_match
                     | Inr d \<Rightarrow>
                         Stamp \<lparr>on_date = d, hour = int_of_digits h, minute = int_of_digits mi\<rparr>)
                  else No_match
              | _ \<Rightarrow> No_match)
         | _ \<Rightarrow> No_match))"

definition demo_lib :: "(int \<times> nat) library" where
  "demo_lib =
     \<lparr>strptime = demo_strptime, is_nat = (\<lambda>v. False), to_float = demo_decimal,
      is_nan = (\<lambda>v. False), zone_rule = (\<lambda>zone t. Unique), columns_frame = (\<lambda>d. None)\<rparr>"

definition demo_day :: date where
  "demo_day = \<lparr>year = 2024, month = 1, day = 15\<rparr>"

definition no_data :: "(int \<times> nat) json" where
  "no_data = JObj [(''Success'', JBool True)]"

definition not_json :: "(int \<times> nat) tab_response" where
  "not_json = json_response None"

text \<open>
  A download of three columns with padded headers: the column \<open>G1\<close> holds \<open>12.5\<close>, an
  empty field and \<open>abc\<close>, and the last row has no number at all. One response stands for
  the answers to the three requests.
\<close>

definition demo_csv :: "string option frame" where
  "demo_csv =
     \<lparr>columns = ['' fechahora '', '' G1'', ''G2 ''],
      data_rows =
        [[Some ''01/01/2024 00:30'', Some ''12.5'', Some ''1''],
         [Some ''01/01/2024 01:00'', None, Some ''2''],
         [Some ''01/01/2024 01:30'', Some ''abc'', Some ''3''],
         [Some ''01/01/2024 02:00'', None, Some ''n/d'']]\<rparr>"

definition demo_download :: "(int \<times> nat) tab_response" where
  "demo_download =
     \<lparr>status_code = 200, reason = ''OK'',
      url = ''https://www.coes.org.pe/Portal/mediciones/medidoresgeneracion/descargar'',
      body = \<lparr>select_options = Some [Some ''1'', Some ''7''], csv = Some demo_csv,
              json = None\<rparr>\<rparr>"

definition demo_session :: "(int \<times> nat) medidores_session" where
  "demo_session =
     \<lparr>post_empresas = Inr demo_download, post_exportar = (\<lambda>p. Inr demo_download),
      get_descargar = Inr demo_download\<rparr>"

definition half_past :: "int \<Rightarrow> int \<Rightarrow> naive_dt" where
  "half_past d h = \<lparr>on_date = \<lparr>year = 2024, month = 1, day = d\<rparr>, hour = h, minute = 30\<rparr>"

definition on_the_hour :: "int \<Rightarrow> int \<Rightarrow> naive_dt" where
  "on_the_hour d h = \<lparr>on_date = \<lparr>year = 2024, month = 1, day = d\<rparr>, hour = h, minute = 0\<rparr>"

definition demo_table :: "(int \<times> nat) cell frame" where
  "demo_table =
     \<lparr>columns = [''fechahora'', ''G1'', ''G2''],
      data_rows =
        [[Time \<lparr>wall = half_past 1 0, tz = None\<rparr>, Num (125, 1), Num (1, 0)],
         [Time \<lparr>wall = on_the_hour 1 1, tz = None\<rparr>, NA, Num (2, 0)],
         [Time \<lparr>wall = half_past 1 1, tz = None\<rparr>, NA, Num (3, 0)]]\<rparr>"




section \<open>Properties of \<open>_raise_for_status\<close>\<close>

lemma client_error_msg_neq_server: "client_error_msg r \<noteq> server_error_msg r"
  by (simp add: client_error_msg_def server_error_msg_def)

text \<open>
  Claim C2. \<open>_raise_for_status\<close> raises the client-error exception exactly for a status
  code in [400, 500) and the server-error exception exactly for one in [500, 600); the
  exception carries the status code, the reason and the URL in its message, and the
  response itself. For every other status code it returns normally. It is a function
  of the response alone.
\<close>

theorem raise_for_status_classifies:
  "(raise_for_status r =
      Inl (HTTPError (str_int (status_code r) @ '' Client Error: '' @ reason r
                        @ '' for url: '' @ url r) r)
      \<longleftrightarrow> 400 \<le> status_code r \<and> status_code r < 500)
   \<and> (raise_for_status r =
      Inl (HTTPError (str_int (status_code r) @ '' Server Error: '' @ reason r
                        @ '' for url: '' @ url r) r)
      \<longleftrightarrow> 500 \<le> status_code r \<and> status_code r < 600)
   \<and> (raise_for_status r = Inr () \<longleftrightarrow> \<not> (400 \<le> status_code r \<and> status_code r < 600))"
  by (auto simp: raise_for_status_def http_error_msg_def client_error_msg_def
        server_error_msg_def)

theorem raise_for_status_classifies_witness:
  "raise_for_status \<lparr>status_code = 404, reason = ''Not Found'', url = ''https://host/x'',
      body = ()\<rparr>
   = Inl (HTTPError ''404 Client Error: Not Found for url: https://host/x''
        \<lparr>status_code = 404, reason = ''Not Found'', url = ''https://host/x'', body = ()\<rparr>)"
proof -
  have "str_int 404 = ''404''" by code_simp
  then show ?thesis
    using raise_for_status_classifies
      [of "\<lparr>status_code = 404, reason = ''Not Found'', url = ''https://host/x'', body = ()\<rparr>"]
    by simp
qed

text \<open>
  Claim C10. For a status code in [400, 600) the exception raised is always of the one
  class \<open>HTTPError\<close> and carries the response object; a client error and a server error
  differ in the message text only.
\<close>

theorem raise_for_status_single_class:
  assumes "400 \<le> status_code r" and "status_code r < 600"
  shows "\<exists>msg. raise_for_status r = Inl (HTTPError msg r)
           \<and> exception_class (HTTPError msg r) = ''HTTPError''
           \<and> msg = str_int (status_code r)
                 @ (if status_code r < 500 then '' Client Error: '' else '' Server Error: '')
                 @ reason r @ '' for url: '' @ url r"
  using assms
  by (auto simp: raise_for_status_def http_error_msg_def client_error_msg_def
        server_error_msg_def)

theorem raise_for_status_single_class_witness:
  "\<exists>msg. raise_for_status \<lparr>status_code = 503, reason = ''Busy'', url = ''u'', body = ()\<rparr>
            = Inl (HTTPError msg \<lparr>status_code = 503, reason = ''Busy'', url = ''u'', body = ()\<rparr>)
         \<and> exception_class
              (HTTPError msg \<lparr>status_code = 503, reason = ''Busy'', url = ''u'', body = ()\<rparr>)
            = ''HTTPError''
         \<and> msg = ''503 Server Error: Busy for url: u''"
proof -
  have "str_int 503 = ''503''" by code_simp
  then show ?thesis
    using raise_for_status_single_class
      [of "\<lparr>status_code = 503, reason = ''Busy'', url = ''u'', body = ()\<rparr>"]
    by simp
qed

section \<open>Properties of the string functions\<close>

lemma split_on_nonempty: "split_on c s \<noteq> []"
  by (induction s) (auto split: list.splits)

lemma split_on_no_sep: "c \<notin> set s \<Longrightarrow> split_on c s = [s]"
  by (induction s) (auto split: list.splits)

lemma split_on_append_sep:
  "split_on c (xs @ c # ys) = split_on c xs @ split_on c ys"
  by (induction xs) (auto simp: split_on_nonempty split: list.splits)

lemma last_split_on_sep:
  "c \<notin> set t \<Longrightarrow> last (split_on c (xs @ c # t)) = t"
  by (simp add: split_on_append_sep split_on_nonempty split_on_no_sep)

section \<open>The threshold stops the crawl\<close>

lemma post_Inr:
  "post srv q s = Inr (r, s1) \<Longrightarrow>
     s1 = s\<lparr>trace := trace s @ [Post q]\<rparr> \<and> srv q = Inr r \<and> raise_for_status r = Inr ()"
  by (auto simp: post_def split: sum.splits)

lemma prog_files_loop_Inr:
  "prog_files_loop d fs s = Inr s' \<Longrightarrow>
     trace s' = trace s \<and> stop s' = stop s
     \<and> (\<exists>new. dowload_urls_map s' = dowload_urls_map s @ new \<and> (\<forall>e \<in> set new. fst e = d))"
proof (induction fs arbitrary: s)
  case Nil
  then show ?case by simp
next
  case (Cons f fs)
  then show ?case by (fastforce split: option.splits)
qed

lemma no_breach_snoc_Post: "no_breach T (tr @ [Post q]) = no_breach T tr"
  by (auto simp: no_breach_def)

lemma no_breach_snoc_LogInfo: "no_breach T (tr @ [LogInfo m]) = no_breach T tr"
  by (auto simp: no_breach_def)

lemma no_breach_snoc_Resolved:
  "no_breach T (tr @ [Resolved d]) = (no_breach T tr \<and> \<not> date_lt d T)"
  by (auto simp: no_breach_def)

lemma no_breach_append: "no_breach T (a @ b) = (no_breach T a \<and> no_breach T b)"
  by (auto simp: no_breach_def)

lemma no_breach_simps:
  "no_breach T [] = True"
  "no_breach T (Post q # tr) = no_breach T tr"
  "no_breach T (LogInfo m # tr) = no_breach T tr"
  "no_breach T (Resolved d # tr) = (\<not> date_lt d T \<and> no_breach T tr)"
  by (auto simp: no_breach_def)

lemma crawl_inv_step:
  assumes "crawl_inv T s" "\<not> stop s" "\<not> stop s'"
    and "trace s' = trace s @ evs" "no_breach T evs"
    and "dowload_urls_map s' = dowload_urls_map s @ new"
    and "\<forall>e \<in> set new. \<not> date_lt (fst e) T"
  shows "crawl_inv T s'"
  using assms by (auto simp: crawl_inv_def no_breach_append)

lemma crawl_inv_breach:
  assumes "crawl_inv T s" "\<not> stop s" "date_lt d T"
    and "stop s'" "trace s' = trace s @ [Post q, Resolved d]"
    and "dowload_urls_map s' = dowload_urls_map s"
  shows "crawl_inv T s'"
proof -
  have "trace s' = (trace s @ [Post q]) @ [Resolved d]"
    using assms by simp
  moreover have "no_breach T (trace s @ [Post q])"
    using assms by (simp add: crawl_inv_def no_breach_append no_breach_simps)
  ultimately show ?thesis
    using assms unfolding crawl_inv_def by (simp del: append_assoc)
qed

lemma prog_day_loop_inv:
  "crawl_inv T s \<Longrightarrow> prog_day_loop srv T p y m rows s = Inr s' \<Longrightarrow> crawl_inv T s'"
proof (induction rows arbitrary: s)
  case Nil
  then show ?case by simp
next
  case (Cons row rows)
  obtain d i where row: "row = (d, i)" by (cases row)
  show ?case
  proof (cases "stop s")
    case True
    with Cons.prems row show ?thesis by simp
  next
    case False
    from Cons.prems(2) row False obtain r s1 date_obj where
      p: "post srv (p\<lparr>dir_url := i\<rparr>) s = Inr (r, s1)" and
      dt: "(mk_date y m d :: listing error + date) = Inr date_obj"
      by (auto split: sum.splits)
    from post_Inr [OF p] have s1: "s1 = s\<lparr>trace := trace s @ [Post (p\<lparr>dir_url := i\<rparr>)]\<rparr>" by simp
    show ?thesis
    proof (cases "date_lt date_obj T")
      case True
      with Cons.prems(2) row False p dt s1
      have "s' = s\<lparr>trace := trace s @ [Post (p\<lparr>dir_url := i\<rparr>), Resolved date_obj], stop := True\<rparr>"
        by (simp add: Let_def)
      then show ?thesis
        using crawl_inv_breach [OF Cons.prems(1) False True, of s'] by simp
    next
      case lt: False
      from Cons.prems(2) row False p dt lt obtain s3 where
        f: "prog_files_loop date_obj (files (body r))
              (s1\<lparr>trace := trace s1 @ [Resolved date_obj, LogInfo (''Listing files of '' @ str_date date_obj)]\<rparr>) = Inr s3"
        and rest: "prog_day_loop srv T p y m rows s3 = Inr s'"
        by (auto simp: Let_def split: sum.splits)
      from prog_files_loop_Inr [OF f] obtain new where
        "trace s3 = trace s @ [Post (p\<lparr>dir_url := i\<rparr>), Resolved date_obj,
            LogInfo (''Listing files of '' @ str_date date_obj)]"
        "\<not> stop s3" "dowload_urls_map s3 = dowload_urls_map s @ new"
        "\<forall>e \<in> set new. fst e = date_obj"
        using s1 False by auto
      then have "crawl_inv T s3"
        using lt by (intro crawl_inv_step [OF Cons.prems(1) False]) (auto simp: no_breach_simps)
      then show ?thesis using rest by (rule Cons.IH)
    qed
  qed
qed

lemma prog_month_loop_inv:
  "crawl_inv T s \<Longrightarrow> prog_month_loop srv T p y rows s = Inr s' \<Longrightarrow> crawl_inv T s'"
proof (induction rows arbitrary: s)
  case Nil
  then show ?case by simp
next
  case (Cons row rows)
  obtain m i where row: "row = (m, i)" by (cases row)
  show ?case
  proof (cases "stop s")
    case True
    with Cons.prems row show ?thesis by simp
  next
    case False
    from Cons.prems(2) row False obtain r s1 day_rows s2 where
      p: "post srv (p\<lparr>dir_url := i\<rparr>) s = Inr (r, s1)" and
      d: "prog_day_loop srv T p y m (sorted_desc fst day_rows) s1 = Inr s2" and
      rest: "prog_month_loop srv T p y rows s2 = Inr s'"
      by (auto split: sum.splits)
    from post_Inr [OF p] have "crawl_inv T s1"
      using False by (intro crawl_inv_step [OF Cons.prems(1) False, where new = "[]"])
        (auto simp: no_breach_simps)
    then have "crawl_inv T s2" using d by (rule prog_day_loop_inv)
    then show ?thesis using rest by (rule Cons.IH)
  qed
qed

lemma prog_year_loop_inv:
  "crawl_inv T s \<Longrightarrow> prog_year_loop srv T p rows s = Inr s' \<Longrightarrow> crawl_inv T s'"
proof (induction rows arbitrary: s)
  case Nil
  then show ?case by simp
next
  case (Cons row rows)
  obtain y i where row: "row = (y, i)" by (cases row)
  show ?case
  proof (cases "stop s")
    case True
    with Cons.prems row show ?thesis by simp
  next
    case False
    from Cons.prems(2) row False obtain r s1 month_rows s2 where
      p: "post srv (p\<lparr>dir_url := i\<rparr>) s = Inr (r, s1)" and
      d: "prog_month_loop srv T p y (sorted_desc fst month_rows) s1 = Inr s2" and
      rest: "prog_year_loop srv T p rows s2 = Inr s'"
      by (auto split: sum.splits)
    from post_Inr [OF p] have "crawl_inv T s1"
      using False by (intro crawl_inv_step [OF Cons.prems(1) False, where new = "[]"])
        (auto simp: no_breach_simps)
    then have "crawl_inv T s2" using d by (rule prog_month_loop_inv)
    then show ?thesis using rest by (rule Cons.IH)
  qed
qed


lemma init_state_inv: "crawl_inv T init_state"
  by (simp add: crawl_inv_def init_state_def no_breach_simps)

lemma prog_run_inv: "get_urls_prog_dia_run srv T = Inr s \<Longrightarrow> crawl_inv T s"
proof -
  assume run: "get_urls_prog_dia_run srv T = Inr s"
  then obtain r s1 year_rows where
    p: "post srv prog_params (init_state :: prog_entry crawl_state) = Inr (r, s1)" and
    y: "prog_year_loop srv T prog_params (sorted_desc fst year_rows) s1 = Inr s"
    by (auto simp: get_urls_prog_dia_run_def split: sum.splits)
  from post_Inr [OF p] have "crawl_inv T s1"
    by (intro crawl_inv_step [OF init_state_inv, where new = "[]"])
      (auto simp: no_breach_simps init_state_def)
  then show ?thesis using y by (rule prog_year_loop_inv)
qed

lemma reprog_files_loop_Inr:
  "reprog_files_loop d v fs s = Inr s' \<Longrightarrow>
     trace s' = trace s \<and> stop s' = stop s
     \<and> (\<exists>new. dowload_urls_map s' = dowload_urls_map s @ new
            \<and> (\<forall>e \<in> set new. fst e = d \<and> fst (snd e) = v))"
proof (induction fs arbitrary: s)
  case Nil
  then show ?case by simp
next
  case (Cons f fs)
  then show ?case by (fastforce split: option.splits)
qed

lemma reprog_version_loop_inv:
  "crawl_inv T s \<Longrightarrow> \<not> date_lt date_obj T \<Longrightarrow>
   reprog_version_loop srv p date_obj rows s = Inr s' \<Longrightarrow> crawl_inv T s'"
proof (induction rows arbitrary: s)
  case Nil
  then show ?case by simp
next
  case (Cons row rows)
  obtain v i where row: "row = (v, i)" by (cases row)
  show ?case
  proof (cases "stop s")
    case True
    with Cons.prems row show ?thesis by simp
  next
    case False
    from Cons.prems(3) row False obtain r s1 s2 where
      p: "post srv (p\<lparr>dir_url := i\<rparr>) s = Inr (r, s1)" and
      f: "reprog_files_loop date_obj v (files (body r))
            (s1\<lparr>trace := trace s1 @
               [LogInfo (''Listing files of '' @ str_date date_obj @ '' - '' @ v)]\<rparr>) = Inr s2" and
      rest: "reprog_version_loop srv p date_obj rows s2 = Inr s'"
      by (auto split: sum.splits)
    from post_Inr [OF p] reprog_files_loop_Inr [OF f] obtain new where
      "trace s2 = trace s @ [Post (p\<lparr>dir_url := i\<rparr>),
          LogInfo (''Listing files of '' @ str_date date_obj @ '' - '' @ v)]"
      "\<not> stop s2" "dowload_urls_map s2 = dowload_urls_map s @ new"
      "\<forall>e \<in> set new. fst e = date_obj"
      using False by auto
    then have "crawl_inv T s2"
      using Cons.prems(2)
      by (intro crawl_inv_step [OF Cons.prems(1) False]) (auto simp: no_breach_simps)
    then show ?thesis using Cons.prems(2) rest by (rule Cons.IH)
  qed
qed

lemma reprog_day_loop_inv:
  "crawl_inv T s \<Longrightarrow> reprog_day_loop srv T p y m rows s = Inr s' \<Longrightarrow> crawl_inv T s'"
proof (induction rows arbitrary: s)
  case Nil
  then show ?case by simp
next
  case (Cons row rows)
  obtain d i where row: "row = (d, i)" by (cases row)
  show ?case
  proof (cases "stop s")
    case True
    with Cons.prems row show ?thesis by simp
  next
    case False
    from Cons.prems(2) row False obtain r s1 date_obj where
      p: "post srv (p\<lparr>dir_url := i\<rparr>) s = Inr (r, s1)" and
      dt: "(mk_date y m d :: listing error + date) = Inr date_obj"
      by (auto split: sum.splits)
    from post_Inr [OF p] have s1: "s1 = s\<lparr>trace := trace s @ [Post (p\<lparr>dir_url := i\<rparr>)]\<rparr>" by simp
    show ?thesis
    proof (cases "date_lt date_obj T")
      case True
      with Cons.prems(2) row False p dt s1
      have "s' = s\<lparr>trace := trace s @ [Post (p\<lparr>dir_url := i\<rparr>), Resolved date_obj], stop := True\<rparr>"
        by (simp add: Let_def)
      then show ?thesis
        using crawl_inv_breach [OF Cons.prems(1) False True, of s'] by simp
    next
      case lt: False
      from Cons.prems(2) row False p dt lt obtain version_rows s3 where
        f: "reprog_version_loop srv p date_obj (sorted_desc fst version_rows)
              (s1\<lparr>trace := trace s1 @ [Resolved date_obj]\<rparr>) = Inr s3"
        and rest: "reprog_day_loop srv T p y m rows s3 = Inr s'"
        by (auto simp: Let_def split: sum.splits)
      have "crawl_inv T (s1\<lparr>trace := trace s1 @ [Resolved date_obj]\<rparr>)"
        using s1 False lt
        by (intro crawl_inv_step [OF Cons.prems(1) False, where new = "[]"])
          (auto simp: no_breach_simps)
      then have "crawl_inv T s3"
        using lt f by (rule reprog_version_loop_inv)
      then show ?thesis using rest by (rule Cons.IH)
    qed
  qed
qed

lemma reprog_month_loop_inv:
  "crawl_inv T s \<Longrightarrow> reprog_month_loop srv T p y rows s = Inr s' \<Longrightarrow> crawl_inv T s'"
proof (induction rows arbitrary: s)
  case Nil
  then show ?case by simp
next
  case (Cons row rows)
  obtain m i where row: "row = (m, i)" by (cases row)
  show ?case
  proof (cases "stop s")
    case True
    with Cons.prems row show ?thesis by simp
  next
    case False
    from Cons.prems(2) row False obtain r s1 day_rows s2 where
      p: "post srv (p\<lparr>dir_url := i\<rparr>) s = Inr (r, s1)" and
      d: "reprog_day_loop srv T p y m (sorted_desc fst day_rows) s1 = Inr s2" and
      rest: "reprog_month_loop srv T p y rows s2 = Inr s'"
      by (auto split: sum.splits)
    from post_Inr [OF p] have "crawl_inv T s1"
      using False by (intro crawl_inv_step [OF Cons.prems(1) False, where new = "[]"])
        (auto simp: no_breach_simps)
    then have "crawl_inv T s2" using d by (rule reprog_day_loop_inv)
    then show ?thesis using rest by (rule Cons.IH)
  qed
qed

lemma reprog_year_loop_inv:
  "crawl_inv T s \<Longrightarrow> reprog_year_loop srv T p rows s = Inr s' \<Longrightarrow> crawl_inv T s'"
proof (induction rows arbitrary: s)
  case Nil
  then show ?case by simp
next
  case (Cons row rows)
  obtain y i where row: "row = (y, i)" by (cases row)
  show ?case
  proof (cases "stop s")
    case True
    with Cons.prems row show ?thesis by simp
  next
    case False
    from Cons.prems(2) row False obtain r s1 month_rows s2 where
      p: "post srv (p\<lparr>dir_url := i\<rparr>) s = Inr (r, s1)" and
      d: "reprog_month_loop srv T p y (sorted_desc fst month_rows) s1 = Inr s2" and
      rest: "reprog_year_loop srv T p rows s2 = Inr s'"
      by (auto split: sum.splits)
    from post_Inr [OF p] have "crawl_inv T s1"
      using False by (intro crawl_inv_step [OF Cons.prems(1) False, where new = "[]"])
        (auto simp: no_breach_simps)
    then have "crawl_inv T s2" using d by (rule reprog_month_loop_inv)
    then show ?thesis using rest by (rule Cons.IH)
  qed
qed


lemma reprog_run_inv: "get_urls_reprog_dia_run srv T = Inr s \<Longrightarrow> crawl_inv T s"
proof -
  assume run: "get_urls_reprog_dia_run srv T = Inr s"
  then obtain r s1 year_rows where
    p: "post srv reprog_params (init_state :: reprog_entry crawl_state) = Inr (r, s1)" and
    y: "reprog_year_loop srv T reprog_params (sorted_desc fst year_rows) s1 = Inr s"
    by (auto simp: get_urls_reprog_dia_run_def split: sum.splits)
  from post_Inr [OF p] have "crawl_inv T s1"
    by (intro crawl_inv_step [OF init_state_inv, where new = "[]"])
      (auto simp: no_breach_simps init_state_def)
  then show ?thesis using y by (rule reprog_year_loop_inv)
qed

lemma crawl_inv_halts:
  assumes "crawl_inv T s" "i < length (trace s)" "trace s ! i = Resolved d" "date_lt d T"
  shows "Suc i = length (trace s) \<and> stop s"
proof (cases "stop s")
  case False
  with assms(1) have "no_breach T (trace s)" by (simp add: crawl_inv_def)
  with assms(2-4) show ?thesis unfolding no_breach_def by (metis nth_mem)
next
  case True
  with assms(1) obtain tr d0 where tr: "trace s = tr @ [Resolved d0]" "no_breach T tr"
    by (auto simp: crawl_inv_def)
  have "\<not> i < length tr"
  proof
    assume "i < length tr"
    then have "Resolved d \<in> set tr" using assms(3) tr(1) by (metis nth_append nth_mem)
    with tr(2) assms(4) show False by (simp add: no_breach_def)
  qed
  with assms(2) tr(1) True show ?thesis by simp
qed

text \<open>
  Claim C1. For every server and every threshold date \<open>T\<close>, no entry returned by
  \<open>get_urls_prog_dia\<close> or \<open>get_urls_reprog_dia\<close> is dated earlier than \<open>T\<close>; and in a
  run of either crawler, a day whose date is earlier than \<open>T\<close> is the last event of the
  run: nothing is requested or recorded after it, and \<open>stop\<close> is set.
\<close>

theorem threshold_halts_crawl:
  "(get_urls_prog_dia srv T = Inr es \<longrightarrow> (\<forall>e \<in> set es. \<not> date_lt (fst e) T))
   \<and> (get_urls_reprog_dia srv T = Inr es' \<longrightarrow> (\<forall>e \<in> set es'. \<not> date_lt (fst e) T))
   \<and> (get_urls_prog_dia_run srv T = Inr s \<longrightarrow>
        (\<forall>i d. i < length (trace s) \<and> trace s ! i = Resolved d \<and> date_lt d T
           \<longrightarrow> Suc i = length (trace s) \<and> stop s))
   \<and> (get_urls_reprog_dia_run srv T = Inr s' \<longrightarrow>
        (\<forall>i d. i < length (trace s') \<and> trace s' ! i = Resolved d \<and> date_lt d T
           \<longrightarrow> Suc i = length (trace s') \<and> stop s'))"
proof (intro conjI impI allI)
  assume "get_urls_prog_dia srv T = Inr es"
  then obtain s0 where "get_urls_prog_dia_run srv T = Inr s0" "es = dowload_urls_map s0"
    by (auto simp: get_urls_prog_dia_def split: sum.splits)
  then show "\<forall>e \<in> set es. \<not> date_lt (fst e) T"
    using prog_run_inv [of srv T s0] by (simp add: crawl_inv_def)
next
  assume "get_urls_reprog_dia srv T = Inr es'"
  then obtain s0 where "get_urls_reprog_dia_run srv T = Inr s0" "es' = dowload_urls_map s0"
    by (auto simp: get_urls_reprog_dia_def split: sum.splits)
  then show "\<forall>e \<in> set es'. \<not> date_lt (fst e) T"
    using reprog_run_inv [of srv T s0] by (simp add: crawl_inv_def)
next
  fix i d
  assume "get_urls_prog_dia_run srv T = Inr s"
    and "i < length (trace s) \<and> trace s ! i = Resolved d \<and> date_lt d T"
  then show "Suc i = length (trace s)" "stop s"
    using crawl_inv_halts [OF prog_run_inv, of srv T s i d] by simp_all
next
  fix i d
  assume "get_urls_reprog_dia_run srv T = Inr s'"
    and "i < length (trace s') \<and> trace s' ! i = Resolved d \<and> date_lt d T"
  then show "Suc i = length (trace s')" "stop s'"
    using crawl_inv_halts [OF reprog_run_inv, of srv T s' i d] by simp_all
qed

theorem threshold_halts_crawl_witness:
  "get_urls_prog_dia demo_portal demo_T =
     Inr [(\<lparr>year = 2024, month = 2, day = 1\<rparr>, ''p0201.xlsx'', ''/f/p0201.xlsx''),
          (\<lparr>year = 2024, month = 1, day = 31\<rparr>, ''p0131a.xlsx'', ''/f/p0131a.xlsx''),
          (\<lparr>year = 2024, month = 1, day = 31\<rparr>, ''p0131b.xlsx'', ''/f/p0131b.xlsx'')]
   \<and> get_urls_reprog_dia demo_portal demo_T =
     Inr [(\<lparr>year = 2024, month = 1, day = 31\<rparr>, ''B'', ''r0131b.xlsx'', ''/f/r0131b.xlsx''),
          (\<lparr>year = 2024, month = 1, day = 31\<rparr>, ''A'', ''r0131a.xlsx'', ''/f/r0131a.xlsx'')]
   \<and> events (get_urls_prog_dia_run demo_portal demo_T) ! 11
        = Resolved \<lparr>year = 2024, month = 1, day = 30\<rparr>
   \<and> length (events (get_urls_prog_dia_run demo_portal demo_T)) = 12
   \<and> stopped (get_urls_prog_dia_run demo_portal demo_T) = Some True
   \<and> events (get_urls_reprog_dia_run demo_portal demo_T) ! 10
        = Resolved \<lparr>year = 2024, month = 1, day = 30\<rparr>
   \<and> length (events (get_urls_reprog_dia_run demo_portal demo_T)) = 11
   \<and> stopped (get_urls_reprog_dia_run demo_portal demo_T) = Some True"
proof -
  let ?d = "\<lparr>year = 2024, month = 1, day = 30\<rparr>"
  have p: "get_urls_prog_dia demo_portal demo_T =
     Inr [(\<lparr>year = 2024, month = 2, day = 1\<rparr>, ''p0201.xlsx'', ''/f/p0201.xlsx''),
          (\<lparr>year = 2024, month = 1, day = 31\<rparr>, ''p0131a.xlsx'', ''/f/p0131a.xlsx''),
          (\<lparr>year = 2024, month = 1, day = 31\<rparr>, ''p0131b.xlsx'', ''/f/p0131b.xlsx'')]"
    by code_simp
  have r: "get_urls_reprog_dia demo_portal demo_T =
     Inr [(\<lparr>year = 2024, month = 1, day = 31\<rparr>, ''B'', ''r0131b.xlsx'', ''/f/r0131b.xlsx''),
          (\<lparr>year = 2024, month = 1, day = 31\<rparr>, ''A'', ''r0131a.xlsx'', ''/f/r0131a.xlsx'')]"
    by code_simp
  have ep: "events (get_urls_prog_dia_run demo_portal demo_T) ! 11 = Resolved ?d"
    by code_simp
  have er: "events (get_urls_reprog_dia_run demo_portal demo_T) ! 10 = Resolved ?d"
    by code_simp
  have lt: "date_lt ?d demo_T" by (simp add: date_lt_def demo_T_def)
  from p obtain s where s: "get_urls_prog_dia_run demo_portal demo_T = Inr s"
    by (auto simp: get_urls_prog_dia_def split: sum.splits)
  from r obtain s' where s': "get_urls_reprog_dia_run demo_portal demo_T = Inr s'"
    by (auto simp: get_urls_reprog_dia_def split: sum.splits)
  have "11 < length (events (get_urls_prog_dia_run demo_portal demo_T))" by code_simp
  then have lp: "11 < length (trace s)" by (simp add: s events_def)
  have "10 < length (events (get_urls_reprog_dia_run demo_portal demo_T))" by code_simp
  then have lr: "10 < length (trace s')" by (simp add: s' events_def)
  have hp: "\<forall>i d. i < length (trace s) \<and> trace s ! i = Resolved d \<and> date_lt d demo_T
              \<longrightarrow> Suc i = length (trace s) \<and> stop s"
    and hr: "\<forall>i d. i < length (trace s') \<and> trace s' ! i = Resolved d \<and> date_lt d demo_T
              \<longrightarrow> Suc i = length (trace s') \<and> stop s'"
    using threshold_halts_crawl [of demo_portal demo_T "[]" "[]" s s'] s s' by simp_all
  have "Suc 11 = length (trace s) \<and> stop s"
    using hp [rule_format, of 11 ?d] ep lp lt s by (simp add: events_def)
  moreover have "Suc 10 = length (trace s') \<and> stop s'"
    using hr [rule_format, of 10 ?d] er lr lt s' by (simp add: events_def)
  ultimately have "length (trace s) = 12 \<and> stop s \<and> length (trace s') = 11 \<and> stop s'"
    by simp
  then show ?thesis
    using p r ep er s s' by (simp add: events_def stopped_def)
qed

section \<open>The number of listing requests\<close>

lemma parse_rows_Inr: "parse_rows key ls = Inr rows \<Longrightarrow> ls = map (\<lambda>r. Some (snd r)) rows"
  by (induction ls arbitrary: rows) (auto split: option.splits sum.splits)

lemma parse_rows_length: "parse_rows key ls = Inr rows \<Longrightarrow> length rows = length ls"
  by (drule parse_rows_Inr) simp

lemma parse_rows_ids:
  "parse_rows key ls = Inr rows \<Longrightarrow> map snd rows = List.map_filter (\<lambda>a. a) ls"
  by (drule parse_rows_Inr) (simp add: map_filter_def comp_def)

lemma length_sorted_desc [simp]: "length (sorted_desc k xs) = length xs"
  by (simp add: sorted_desc_def)

lemma set_sorted_desc [simp]: "set (sorted_desc k xs) = set xs"
  by (simp add: sorted_desc_def)

lemma post_links:
  assumes "post srv q s = Inr (r, s1)" and "parse_rows key (links (body r)) = Inr rows"
  shows "length (sorted_desc fst rows) = n_links srv q"
    and "snd ` set (sorted_desc fst rows) = set (link_ids srv q)"
    and "n_posts s1 = Suc (n_posts s)" and "stop s1 = stop s"
proof -
  from post_Inr [OF assms(1)] have r: "srv q = Inr r" and s1: "s1 = s\<lparr>trace := trace s @ [Post q]\<rparr>"
    by simp_all
  show "length (sorted_desc fst rows) = n_links srv q"
    using r parse_rows_length [OF assms(2)] by (simp add: n_links_def)
  have "set (map snd rows) = set (link_ids srv q)"
    using r parse_rows_ids [OF assms(2)] by (simp add: link_ids_def)
  then show "snd ` set (sorted_desc fst rows) = set (link_ids srv q)" by simp
  show "n_posts s1 = Suc (n_posts s)" "stop s1 = stop s"
    using s1 by (simp_all add: n_posts_def)
qed

lemma prog_day_loop_stop: "stop s \<Longrightarrow> prog_day_loop srv T p y m rows s = Inr s"
  by (cases rows) auto

lemma prog_month_loop_stop: "stop s \<Longrightarrow> prog_month_loop srv T p y rows s = Inr s"
  by (cases rows) auto

lemma prog_year_loop_stop: "stop s \<Longrightarrow> prog_year_loop srv T p rows s = Inr s"
  by (cases rows) auto

lemma prog_day_loop_count:
  "prog_day_loop srv T p y m rows s = Inr s' \<Longrightarrow> \<not> stop s' \<Longrightarrow>
   n_posts s' = n_posts s + length rows"
proof (induction rows arbitrary: s)
  case Nil
  then show ?case by simp
next
  case (Cons row rows)
  obtain d i where row: "row = (d, i)" by (cases row)
  have ns: "\<not> stop s" using Cons.prems prog_day_loop_stop [of s srv T p y m "row # rows"] by auto
  from Cons.prems(1) row ns obtain r s1 date_obj where
    p: "post srv (p\<lparr>dir_url := i\<rparr>) s = Inr (r, s1)" and
    dt: "(mk_date y m d :: listing error + date) = Inr date_obj"
    by (auto split: sum.splits)
  from post_Inr [OF p] have s1: "s1 = s\<lparr>trace := trace s @ [Post (p\<lparr>dir_url := i\<rparr>)]\<rparr>" by simp
  have lt: "\<not> date_lt date_obj T"
    using Cons.prems row ns p dt by (auto simp: Let_def)
  from Cons.prems(1) row ns p dt lt obtain s3 where
    f: "prog_files_loop date_obj (files (body r))
          (s1\<lparr>trace := trace s1 @ [Resolved date_obj,
              LogInfo (''Listing files of '' @ str_date date_obj)]\<rparr>) = Inr s3"
    and rest: "prog_day_loop srv T p y m rows s3 = Inr s'"
    by (auto simp: Let_def split: sum.splits)
  from prog_files_loop_Inr [OF f] s1 have "n_posts s3 = Suc (n_posts s)"
    by (simp add: n_posts_def)
  with Cons.IH [OF rest Cons.prems(2)] show ?case by simp
qed

lemma prog_month_loop_count:
  "prog_month_loop srv T p y rows s = Inr s' \<Longrightarrow> \<not> stop s' \<Longrightarrow>
   \<forall>i \<in> snd ` set rows. n_links srv (p\<lparr>dir_url := i\<rparr>) = D \<Longrightarrow>
   n_posts s' = n_posts s + length rows * (1 + D)"
proof (induction rows arbitrary: s)
  case Nil
  then show ?case by simp
next
  case (Cons row rows)
  obtain m i where row: "row = (m, i)" by (cases row)
  have ns: "\<not> stop s" using Cons.prems prog_month_loop_stop [of s srv T p y "row # rows"] by auto
  from Cons.prems(1) row ns obtain r s1 day_rows s2 where
    p: "post srv (p\<lparr>dir_url := i\<rparr>) s = Inr (r, s1)" and
    pr: "parse_rows day_key (links (body r)) = Inr day_rows" and
    d: "prog_day_loop srv T p y m (sorted_desc fst day_rows) s1 = Inr s2" and
    rest: "prog_month_loop srv T p y rows s2 = Inr s'"
    by (auto split: sum.splits)
  have ns2: "\<not> stop s2"
    using rest Cons.prems(2) prog_month_loop_stop [of s2 srv T p y rows] by auto
  have "length (sorted_desc fst day_rows) = D"
    using post_links(1) [OF p pr] Cons.prems(3) row by simp
  with prog_day_loop_count [OF d ns2] post_links(3) [OF p pr]
  have "n_posts s2 = n_posts s + (1 + D)" by simp
  moreover have "n_posts s' = n_posts s2 + length rows * (1 + D)"
    using Cons.prems(3) by (intro Cons.IH [OF rest Cons.prems(2)]) simp
  ultimately show ?case by simp
qed

lemma prog_year_loop_count:
  "prog_year_loop srv T p rows s = Inr s' \<Longrightarrow> \<not> stop s' \<Longrightarrow>
   \<forall>i \<in> snd ` set rows. n_links srv (p\<lparr>dir_url := i\<rparr>) = M
      \<and> (\<forall>j \<in> set (link_ids srv (p\<lparr>dir_url := i\<rparr>)). n_links srv (p\<lparr>dir_url := j\<rparr>) = D) \<Longrightarrow>
   n_posts s' = n_posts s + length rows * (1 + M * (1 + D))"
proof (induction rows arbitrary: s)
  case Nil
  then show ?case by simp
next
  case (Cons row rows)
  obtain y i where row: "row = (y, i)" by (cases row)
  have ns: "\<not> stop s" using Cons.prems prog_year_loop_stop [of s srv T p "row # rows"] by auto
  from Cons.prems(1) row ns obtain r s1 month_rows s2 where
    p: "post srv (p\<lparr>dir_url := i\<rparr>) s = Inr (r, s1)" and
    pr: "parse_rows month_key (links (body r)) = Inr month_rows" and
    d: "prog_month_loop srv T p y (sorted_desc fst month_rows) s1 = Inr s2" and
    rest: "prog_year_loop srv T p rows s2 = Inr s'"
    by (auto split: sum.splits)
  have ns2: "\<not> stop s2"
    using rest Cons.prems(2) prog_year_loop_stop [of s2 srv T p rows] by auto
  have len: "length (sorted_desc fst month_rows) = M"
    using post_links(1) [OF p pr] Cons.prems(3) row by simp
  have "\<forall>j \<in> snd ` set (sorted_desc fst month_rows). n_links srv (p\<lparr>dir_url := j\<rparr>) = D"
    using post_links(2) [OF p pr] Cons.prems(3) row by simp
  from prog_month_loop_count [OF d ns2 this] len post_links(3) [OF p pr]
  have "n_posts s2 = n_posts s + (1 + M * (1 + D))" by simp
  moreover have "n_posts s' = n_posts s2 + length rows * (1 + M * (1 + D))"
    using Cons.prems(3) by (intro Cons.IH [OF rest Cons.prems(2)]) simp
  ultimately show ?case by simp
qed

lemma prog_run_count:
  assumes "get_urls_prog_dia_run srv T = Inr s" "\<not> stop s"
    and "regular_tree srv prog_params N M D"
  shows "n_posts s = 1 + N + N * M + N * M * D"
proof -
  from assms(1) obtain r s1 year_rows where
    p: "post srv prog_params (init_state :: prog_entry crawl_state) = Inr (r, s1)" and
    pr: "parse_rows year_key (links (body r)) = Inr year_rows" and
    y: "prog_year_loop srv T prog_params (sorted_desc fst year_rows) s1 = Inr s"
    by (auto simp: get_urls_prog_dia_run_def split: sum.splits)
  have len: "length (sorted_desc fst year_rows) = N"
    using post_links(1) [OF p pr] assms(3) by (simp add: regular_tree_def)
  have "\<forall>i \<in> snd ` set (sorted_desc fst year_rows).
          n_links srv (prog_params\<lparr>dir_url := i\<rparr>) = M
          \<and> (\<forall>j \<in> set (link_ids srv (prog_params\<lparr>dir_url := i\<rparr>)).
                n_links srv (prog_params\<lparr>dir_url := j\<rparr>) = D)"
    using post_links(2) [OF p pr] assms(3) by (simp add: regular_tree_def)
  from prog_year_loop_count [OF y assms(2) this] len post_links(3) [OF p pr]
  have "n_posts s = 1 + N * (1 + M * (1 + D))"
    by (simp add: n_posts_def init_state_def)
  then show ?thesis by (simp add: algebra_simps)
qed


lemma reprog_version_loop_stop: "stop s \<Longrightarrow> reprog_version_loop srv p d rows s = Inr s"
  by (cases rows) auto

lemma reprog_day_loop_stop: "stop s \<Longrightarrow> reprog_day_loop srv T p y m rows s = Inr s"
  by (cases rows) auto

lemma reprog_month_loop_stop: "stop s \<Longrightarrow> reprog_month_loop srv T p y rows s = Inr s"
  by (cases rows) auto

lemma reprog_year_loop_stop: "stop s \<Longrightarrow> reprog_year_loop srv T p rows s = Inr s"
  by (cases rows) auto

lemma reprog_version_loop_count:
  "reprog_version_loop srv p date_obj rows s = Inr s' \<Longrightarrow> \<not> stop s' \<Longrightarrow>
   n_posts s' = n_posts s + length rows"
proof (induction rows arbitrary: s)
  case Nil
  then show ?case by simp
next
  case (Cons row rows)
  obtain v i where row: "row = (v, i)" by (cases row)
  have ns: "\<not> stop s"
    using Cons.prems reprog_version_loop_stop [of s srv p date_obj "row # rows"] by auto
  from Cons.prems(1) row ns obtain r s1 s2 where
    p: "post srv (p\<lparr>dir_url := i\<rparr>) s = Inr (r, s1)" and
    f: "reprog_files_loop date_obj v (files (body r))
          (s1\<lparr>trace := trace s1 @
             [LogInfo (''Listing files of '' @ str_date date_obj @ '' - '' @ v)]\<rparr>) = Inr s2" and
    rest: "reprog_version_loop srv p date_obj rows s2 = Inr s'"
    by (auto split: sum.splits)
  from post_Inr [OF p] reprog_files_loop_Inr [OF f] have "n_posts s2 = Suc (n_posts s)"
    by (simp add: n_posts_def)
  with Cons.IH [OF rest Cons.prems(2)] show ?case by simp
qed

lemma reprog_day_loop_count:
  "reprog_day_loop srv T p y m rows s = Inr s' \<Longrightarrow> \<not> stop s' \<Longrightarrow>
   \<forall>i \<in> snd ` set rows. n_links srv (p\<lparr>dir_url := i\<rparr>) = V \<Longrightarrow>
   n_posts s' = n_posts s + length rows * (1 + V)"
proof (induction rows arbitrary: s)
  case Nil
  then show ?case by simp
next
  case (Cons row rows)
  obtain d i where row: "row = (d, i)" by (cases row)
  have ns: "\<not> stop s"
    using Cons.prems reprog_day_loop_stop [of s srv T p y m "row # rows"] by auto
  from Cons.prems(1) row ns obtain r s1 date_obj where
    p: "post srv (p\<lparr>dir_url := i\<rparr>) s = Inr (r, s1)" and
    dt: "(mk_date y m d :: listing error + date) = Inr date_obj"
    by (auto split: sum.splits)
  have lt: "\<not> date_lt date_obj T"
    using Cons.prems row ns p dt by (auto simp: Let_def)
  from Cons.prems(1) row ns p dt lt obtain version_rows s3 where
    pr: "parse_rows reprog_key (links (body r)) = Inr version_rows" and
    f: "reprog_version_loop srv p date_obj (sorted_desc fst version_rows)
          (s1\<lparr>trace := trace s1 @ [Resolved date_obj]\<rparr>) = Inr s3" and
    rest: "reprog_day_loop srv T p y m rows s3 = Inr s'"
    by (auto simp: Let_def split: sum.splits)
  have ns3: "\<not> stop s3"
    using rest Cons.prems(2) reprog_day_loop_stop [of s3 srv T p y m rows] by auto
  have "length (sorted_desc fst version_rows) = V"
    using post_links(1) [OF p pr] Cons.prems(3) row by simp
  with reprog_version_loop_count [OF f ns3] post_links(3) [OF p pr]
  have "n_posts s3 = n_posts s + (1 + V)" by (simp add: n_posts_def)
  moreover have "n_posts s' = n_posts s3 + length rows * (1 + V)"
    using Cons.prems(3) by (intro Cons.IH [OF rest Cons.prems(2)]) simp
  ultimately show ?case by simp
qed

lemma reprog_month_loop_count:
  "reprog_month_loop srv T p y rows s = Inr s' \<Longrightarrow> \<not> stop s' \<Longrightarrow>
   \<forall>i \<in> snd ` set rows. n_links srv (p\<lparr>dir_url := i\<rparr>) = D
      \<and> (\<forall>j \<in> set (link_ids srv (p\<lparr>dir_url := i\<rparr>)). n_links srv (p\<lparr>dir_url := j\<rparr>) = V) \<Longrightarrow>
   n_posts s' = n_posts s + length rows * (1 + D * (1 + V))"
proof (induction rows arbitrary: s)
  case Nil
  then show ?case by simp
next
  case (Cons row rows)
  obtain m i where row: "row = (m, i)" by (cases row)
  have ns: "\<not> stop s"
    using Cons.prems reprog_month_loop_stop [of s srv T p y "row # rows"] by auto
  from Cons.prems(1) row ns obtain r s1 day_rows s2 where
    p: "post srv (p\<lparr>dir_url := i\<rparr>) s = Inr (r, s1)" and
    pr: "parse_rows day_key (links (body r)) = Inr day_rows" and
    d: "reprog_day_loop srv T p y m (sorted_desc fst day_rows) s1 = Inr s2" and
    rest: "reprog_month_loop srv T p y rows s2 = Inr s'"
    by (auto split: sum.splits)
  have ns2: "\<not> stop s2"
    using rest Cons.prems(2) reprog_month_loop_stop [of s2 srv T p y rows] by auto
  have len: "length (sorted_desc fst day_rows) = D"
    using post_links(1) [OF p pr] Cons.prems(3) row by simp
  have "\<forall>j \<in> snd ` set (sorted_desc fst day_rows). n_links srv (p\<lparr>dir_url := j\<rparr>) = V"
    using post_links(2) [OF p pr] Cons.prems(3) row by simp
  from reprog_day_loop_count [OF d ns2 this] len post_links(3) [OF p pr]
  have "n_posts s2 = n_posts s + (1 + D * (1 + V))" by simp
  moreover have "n_posts s' = n_posts s2 + length rows * (1 + D * (1 + V))"
    using Cons.prems(3) by (intro Cons.IH [OF rest Cons.prems(2)]) simp
  ultimately show ?case by simp
qed

lemma reprog_year_loop_count:
  "reprog_year_loop srv T p rows s = Inr s' \<Longrightarrow> \<not> stop s' \<Longrightarrow>
   \<forall>i \<in> snd ` set rows. n_links srv (p\<lparr>dir_url := i\<rparr>) = M
      \<and> (\<forall>j \<in> set (link_ids srv (p\<lparr>dir_url := i\<rparr>)). n_links srv (p\<lparr>dir_url := j\<rparr>) = D
            \<and> (\<forall>k \<in> set (link_ids srv (p\<lparr>dir_url := j\<rparr>)).
                  n_links srv (p\<lparr>dir_url := k\<rparr>) = V)) \<Longrightarrow>
   n_posts s' = n_posts s + length rows * (1 + M * (1 + D * (1 + V)))"
proof (induction rows arbitrary: s)
  case Nil
  then show ?case by simp
next
  case (Cons row rows)
  obtain y i where row: "row = (y, i)" by (cases row)
  have ns: "\<not> stop s"
    using Cons.prems reprog_year_loop_stop [of s srv T p "row # rows"] by auto
  from Cons.prems(1) row ns obtain r s1 month_rows s2 where
    p: "post srv (p\<lparr>dir_url := i\<rparr>) s = Inr (r, s1)" and
    pr: "parse_rows month_key (links (body r)) = Inr month_rows" and
    d: "reprog_month_loop srv T p y (sorted_desc fst month_rows) s1 = Inr s2" and
    rest: "reprog_year_loop srv T p rows s2 = Inr s'"
    by (auto split: sum.splits)
  have ns2: "\<not> stop s2"
    using rest Cons.prems(2) reprog_year_loop_stop [of s2 srv T p rows] by auto
  have len: "length (sorted_desc fst month_rows) = M"
    using post_links(1) [OF p pr] Cons.prems(3) row by simp
  have "\<forall>j \<in> snd ` set (sorted_desc fst month_rows). n_links srv (p\<lparr>dir_url := j\<rparr>) = D
          \<and> (\<forall>k \<in> set (link_ids srv (p\<lparr>dir_url := j\<rparr>)). n_links srv (p\<lparr>dir_url := k\<rparr>) = V)"
    using post_links(2) [OF p pr] Cons.prems(3) row by simp
  from reprog_month_loop_count [OF d ns2 this] len post_links(3) [OF p pr]
  have "n_posts s2 = n_posts s + (1 + M * (1 + D * (1 + V)))" by simp
  moreover have "n_posts s' = n_posts s2 + length rows * (1 + M * (1 + D * (1 + V)))"
    using Cons.prems(3) by (intro Cons.IH [OF rest Cons.prems(2)]) simp
  ultimately show ?case by simp
qed

lemma reprog_run_count:
  assumes "get_urls_reprog_dia_run srv T = Inr s" "\<not> stop s"
    and "regular_tree srv reprog_params N M D" and "regular_days srv reprog_params V"
  shows "n_posts s = 1 + N + N * M + N * M * D + N * M * D * V"
proof -
  from assms(1) obtain r s1 year_rows where
    p: "post srv reprog_params (init_state :: reprog_entry crawl_state) = Inr (r, s1)" and
    pr: "parse_rows year_key (links (body r)) = Inr year_rows" and
    y: "reprog_year_loop srv T reprog_params (sorted_desc fst year_rows) s1 = Inr s"
    by (auto simp: get_urls_reprog_dia_run_def split: sum.splits)
  have len: "length (sorted_desc fst year_rows) = N"
    using post_links(1) [OF p pr] assms(3) by (simp add: regular_tree_def)
  have "\<forall>i \<in> snd ` set (sorted_desc fst year_rows).
          n_links srv (reprog_params\<lparr>dir_url := i\<rparr>) = M
          \<and> (\<forall>j \<in> set (link_ids srv (reprog_params\<lparr>dir_url := i\<rparr>)).
                n_links srv (reprog_params\<lparr>dir_url := j\<rparr>) = D
                \<and> (\<forall>k \<in> set (link_ids srv (reprog_params\<lparr>dir_url := j\<rparr>)).
                      n_links srv (reprog_params\<lparr>dir_url := k\<rparr>) = V))"
    using post_links(2) [OF p pr] assms(3,4) by (simp add: regular_tree_def regular_days_def)
  from reprog_year_loop_count [OF y assms(2) this] len post_links(3) [OF p pr]
  have "n_posts s = 1 + N * (1 + M * (1 + D * (1 + V)))"
    by (simp add: n_posts_def init_state_def)
  then show ?thesis by (simp add: algebra_simps)
qed

text \<open>
  Claim C4, as amended. On a regular listing tree with \<open>N\<close> years, \<open>M\<close> months a year
  and \<open>D\<close> days a month, a run of \<open>get_urls_prog_dia\<close> that returns without having met a
  date earlier than the threshold has issued exactly \<open>1 + N + N*M + N*M*D\<close> listing
  requests: the request for the base directory comes first. With \<open>V\<close> versions a day,
  \<open>get_urls_reprog_dia\<close> has issued \<open>N*M*D*V\<close> more.
\<close>

theorem listing_requests_count:
  "(regular_tree srv prog_params N M D
      \<and> stopped (get_urls_prog_dia_run srv T) = Some False
    \<longrightarrow> requests_issued (get_urls_prog_dia_run srv T) = Some (1 + N + N * M + N * M * D))
   \<and> (regular_tree srv reprog_params N M D \<and> regular_days srv reprog_params V
      \<and> stopped (get_urls_reprog_dia_run srv T) = Some False
    \<longrightarrow> requests_issued (get_urls_reprog_dia_run srv T)
          = Some (1 + N + N * M + N * M * D + N * M * D * V))"
proof (intro conjI impI)
  assume a: "regular_tree srv prog_params N M D
      \<and> stopped (get_urls_prog_dia_run srv T) = Some False"
  then obtain s where s: "get_urls_prog_dia_run srv T = Inr s" "\<not> stop s"
    by (auto simp: stopped_def split: sum.splits)
  from prog_run_count [OF s] a show
    "requests_issued (get_urls_prog_dia_run srv T) = Some (1 + N + N * M + N * M * D)"
    by (simp add: requests_issued_def s n_posts_def)
next
  assume a: "regular_tree srv reprog_params N M D \<and> regular_days srv reprog_params V
      \<and> stopped (get_urls_reprog_dia_run srv T) = Some False"
  then obtain s where s: "get_urls_reprog_dia_run srv T = Inr s" "\<not> stop s"
    by (auto simp: stopped_def split: sum.splits)
  from reprog_run_count [OF s] a show
    "requests_issued (get_urls_reprog_dia_run srv T)
       = Some (1 + N + N * M + N * M * D + N * M * D * V)"
    by (simp add: requests_issued_def s n_posts_def)
qed

theorem listing_requests_count_witness:
  "regular_tree uniform_portal prog_params 2 1 2
   \<and> stopped (get_urls_prog_dia_run uniform_portal early_T) = Some False
   \<and> requests_issued (get_urls_prog_dia_run uniform_portal early_T) = Some 9
   \<and> regular_tree uniform_portal reprog_params 1 1 1
   \<and> regular_days uniform_portal reprog_params 2
   \<and> stopped (get_urls_reprog_dia_run uniform_portal early_T) = Some False
   \<and> requests_issued (get_urls_reprog_dia_run uniform_portal early_T) = Some 6"
proof -
  have 1: "regular_tree uniform_portal prog_params 2 1 2" by code_simp
  have 2: "stopped (get_urls_prog_dia_run uniform_portal early_T) = Some False" by code_simp
  have 3: "regular_tree uniform_portal reprog_params 1 1 1" by code_simp
  have 4: "regular_days uniform_portal reprog_params 2" by code_simp
  have 5: "stopped (get_urls_reprog_dia_run uniform_portal early_T) = Some False" by code_simp
  show ?thesis
    using listing_requests_count [of uniform_portal 2 1 2 early_T]
      listing_requests_count [of uniform_portal 1 1 1 early_T 2] 1 2 3 4 5
    by simp
qed

text \<open>
  The claim as stated leaves out the request for the base directory: on the regular
  portal (\<open>N = 2\<close>, \<open>M = 1\<close>, \<open>D = 2\<close>) the crawler issues 9 requests, not 8.
\<close>

theorem listing_requests_count_counterexample:
  "regular_tree uniform_portal prog_params 2 1 2
   \<and> stopped (get_urls_prog_dia_run uniform_portal early_T) = Some False
   \<and> requests_issued (get_urls_prog_dia_run uniform_portal early_T) = Some 9
   \<and> requests_issued (get_urls_prog_dia_run uniform_portal early_T)
       \<noteq> Some (2 + 2 * 1 + 2 * 1 * 2)"
  by code_simp

section \<open>The order of enumeration and of the returned list\<close>

lemma mk_date_Inr:
  "mk_date y m d = Inr x \<Longrightarrow> year x = y \<and> month x = m \<and> day x = d"
  by (auto simp: mk_date_def split: if_splits)

lemma sorted_desc_sorted: "sorted_wrt (\<lambda>a b. k b \<le> k a) (sorted_desc k xs)"
proof -
  have "sorted (map k (sort_key k (rev xs)))" by simp
  then have "sorted_wrt (\<lambda>a b. k a \<le> k b) (sort_key k (rev xs))"
    by (simp add: sorted_map)
  then show ?thesis
    by (simp add: sorted_desc_def sorted_wrt_rev)
qed

lemma distinct_map_sort_key:
  "distinct (map k xs) \<Longrightarrow> distinct (map k (sort_key k xs))"
proof -
  assume d: "distinct (map k xs)"
  have "card (set (map k (sort_key k xs))) = card (set (map k xs))" by simp
  also have "\<dots> = length (map k xs)" using d by (rule distinct_card)
  also have "\<dots> = length (map k (sort_key k xs))" by simp
  finally show ?thesis by (rule card_distinct)
qed

lemma sorted_desc_strict:
  assumes "distinct (map k xs)"
  shows "sorted_wrt (\<lambda>a b. k b < k a) (sorted_desc k xs)"
proof -
  have "distinct (map k (rev xs))" using assms by (simp add: rev_map [symmetric])
  then have "distinct (map k (sort_key k (rev xs)))" by (rule distinct_map_sort_key)
  moreover have "sorted (map k (sort_key k (rev xs)))" by simp
  ultimately have "sorted_wrt (<) (map k (sort_key k (rev xs)))"
    by (simp add: strict_sorted_iff)
  then have "sorted_wrt (\<lambda>a b. k a < k b) (sort_key k (rev xs))"
    by (simp add: sorted_wrt_map)
  then show ?thesis
    by (simp add: sorted_desc_def sorted_wrt_rev)
qed

lemma sorted_wrt_all: "(\<forall>a \<in> set xs. \<forall>b \<in> set xs. P a b) \<Longrightarrow> sorted_wrt P xs"
  by (induction xs) auto

lemma date_lt_irrefl: "\<not> date_lt d d"
  by (simp add: date_lt_def)

lemma newest_first_same_date: "\<forall>e \<in> set es. fst e = d \<Longrightarrow> newest_first es"
  unfolding newest_first_def by (rule sorted_wrt_all) (simp add: date_lt_irrefl)

lemma newest_first_append:
  "newest_first xs \<Longrightarrow> newest_first ys \<Longrightarrow>
   \<forall>a \<in> set xs. \<forall>b \<in> set ys. \<not> date_lt (fst a) (fst b) \<Longrightarrow> newest_first (xs @ ys)"
  by (simp add: newest_first_def sorted_wrt_append)

lemma post_keys:
  assumes "post srv q s = Inr (r, s1)" and "parse_rows key (links (body r)) = Inr rows"
  shows "keys_at key srv q = map fst rows"
  using post_Inr [OF assms(1)] assms(2) by (simp add: keys_at_def)

lemma prog_day_loop_sorted:
  assumes "prog_day_loop srv T p y m rows s = Inr s'"
    and "sorted_wrt (\<lambda>a b. fst b \<le> fst a) rows"
  shows "\<exists>new. dowload_urls_map s' = dowload_urls_map s @ new
           \<and> (\<forall>e \<in> set new. year (fst e) = y \<and> month (fst e) = m
                  \<and> day (fst e) \<in> fst ` set rows)
           \<and> newest_first new"
  using assms
proof (induction rows arbitrary: s)
  case Nil
  then show ?case by (simp add: newest_first_def)
next
  case (Cons row rows)
  obtain d i where row: "row = (d, i)" by (cases row)
  show ?case
  proof (cases "stop s")
    case True
    with Cons.prems row show ?thesis by (simp add: newest_first_def)
  next
    case False
    from Cons.prems(1) row False obtain r s1 date_obj where
      p: "post srv (p\<lparr>dir_url := i\<rparr>) s = Inr (r, s1)" and
      dt: "(mk_date y m d :: listing error + date) = Inr date_obj"
      by (auto split: sum.splits)
    from post_Inr [OF p] have s1: "s1 = s\<lparr>trace := trace s @ [Post (p\<lparr>dir_url := i\<rparr>)]\<rparr>" by simp
    note dd = mk_date_Inr [OF dt]
    show ?thesis
    proof (cases "date_lt date_obj T")
      case True
      with Cons.prems(1) row False p dt s1 show ?thesis
        by (auto simp: Let_def newest_first_def)
    next
      case lt: False
      from Cons.prems(1) row False p dt lt obtain s3 where
        f: "prog_files_loop date_obj (files (body r))
              (s1\<lparr>trace := trace s1 @ [Resolved date_obj,
                  LogInfo (''Listing files of '' @ str_date date_obj)]\<rparr>) = Inr s3"
        and rest: "prog_day_loop srv T p y m rows s3 = Inr s'"
        by (auto simp: Let_def split: sum.splits)
      from prog_files_loop_Inr [OF f] s1 obtain new1 where
        n1: "dowload_urls_map s3 = dowload_urls_map s @ new1" "\<forall>e \<in> set new1. fst e = date_obj"
        by auto
      from Cons.prems(2) have srt: "sorted_wrt (\<lambda>a b. fst b \<le> fst a) rows"
        and le: "\<forall>b \<in> set rows. fst b \<le> d" using row by auto
      from Cons.IH [OF rest srt] obtain new2 where
        n2: "dowload_urls_map s' = dowload_urls_map s3 @ new2"
          "\<forall>e \<in> set new2. year (fst e) = y \<and> month (fst e) = m \<and> day (fst e) \<in> fst ` set rows"
          "newest_first new2"
        by blast
      have cross: "\<forall>a \<in> set new1. \<forall>b \<in> set new2. \<not> date_lt (fst a) (fst b)"
        using n1(2) n2(2) dd le by (fastforce simp: date_lt_def)
      have "newest_first (new1 @ new2)"
        using newest_first_same_date [OF n1(2)] n2(3) cross by (rule newest_first_append)
      moreover have "\<forall>e \<in> set (new1 @ new2). year (fst e) = y \<and> month (fst e) = m
                  \<and> day (fst e) \<in> fst ` set (row # rows)"
        using n1(2) n2(2) dd row by auto
      ultimately show ?thesis using n1(1) n2(1) by (intro exI [of _ "new1 @ new2"]) simp
    qed
  qed
qed


lemma prog_month_loop_sorted:
  assumes "prog_month_loop srv T p y rows s = Inr s'"
    and "sorted_wrt (\<lambda>a b. fst b < fst a) rows"
  shows "\<exists>new. dowload_urls_map s' = dowload_urls_map s @ new
           \<and> (\<forall>e \<in> set new. year (fst e) = y \<and> month (fst e) \<in> fst ` set rows)
           \<and> newest_first new"
  using assms
proof (induction rows arbitrary: s)
  case Nil
  then show ?case by (simp add: newest_first_def)
next
  case (Cons row rows)
  obtain m i where row: "row = (m, i)" by (cases row)
  show ?case
  proof (cases "stop s")
    case True
    with Cons.prems row show ?thesis by (simp add: newest_first_def)
  next
    case False
    from Cons.prems(1) row False obtain r s1 day_rows s2 where
      p: "post srv (p\<lparr>dir_url := i\<rparr>) s = Inr (r, s1)" and
      d: "prog_day_loop srv T p y m (sorted_desc fst day_rows) s1 = Inr s2" and
      rest: "prog_month_loop srv T p y rows s2 = Inr s'"
      by (auto split: sum.splits)
    from post_Inr [OF p] have s1: "dowload_urls_map s1 = dowload_urls_map s" by simp
    from prog_day_loop_sorted [OF d sorted_desc_sorted] s1 obtain new1 where
      n1: "dowload_urls_map s2 = dowload_urls_map s @ new1"
        "\<forall>e \<in> set new1. year (fst e) = y \<and> month (fst e) = m"
        "newest_first new1"
      by auto
    from Cons.prems(2) have srt: "sorted_wrt (\<lambda>a b. fst b < fst a) rows"
      and less: "\<forall>b \<in> set rows. fst b < m" using row by auto
    from Cons.IH [OF rest srt] obtain new2 where
      n2: "dowload_urls_map s' = dowload_urls_map s2 @ new2"
        "\<forall>e \<in> set new2. year (fst e) = y \<and> month (fst e) \<in> fst ` set rows"
        "newest_first new2"
      by blast
    have cross: "\<forall>a \<in> set new1. \<forall>b \<in> set new2. \<not> date_lt (fst a) (fst b)"
      using n1(2) n2(2) less by (fastforce simp: date_lt_def)
    have "newest_first (new1 @ new2)"
      using n1(3) n2(3) cross by (rule newest_first_append)
    moreover have "\<forall>e \<in> set (new1 @ new2). year (fst e) = y
                \<and> month (fst e) \<in> fst ` set (row # rows)"
      using n1(2) n2(2) row by auto
    ultimately show ?thesis using n1(1) n2(1) by (intro exI [of _ "new1 @ new2"]) simp
  qed
qed

lemma prog_year_loop_sorted:
  assumes "prog_year_loop srv T p rows s = Inr s'"
    and "sorted_wrt (\<lambda>a b. fst b < fst a) rows"
    and "\<forall>i \<in> snd ` set rows. distinct (keys_at month_key srv (p\<lparr>dir_url := i\<rparr>))"
  shows "\<exists>new. dowload_urls_map s' = dowload_urls_map s @ new
           \<and> (\<forall>e \<in> set new. year (fst e) \<in> fst ` set rows)
           \<and> newest_first new"
  using assms
proof (induction rows arbitrary: s)
  case Nil
  then show ?case by (simp add: newest_first_def)
next
  case (Cons row rows)
  obtain y i where row: "row = (y, i)" by (cases row)
  show ?case
  proof (cases "stop s")
    case True
    with Cons.prems row show ?thesis by (simp add: newest_first_def)
  next
    case False
    from Cons.prems(1) row False obtain r s1 month_rows s2 where
      p: "post srv (p\<lparr>dir_url := i\<rparr>) s = Inr (r, s1)" and
      pr: "parse_rows month_key (links (body r)) = Inr month_rows" and
      d: "prog_month_loop srv T p y (sorted_desc fst month_rows) s1 = Inr s2" and
      rest: "prog_year_loop srv T p rows s2 = Inr s'"
      by (auto split: sum.splits)
    from post_Inr [OF p] have s1: "dowload_urls_map s1 = dowload_urls_map s" by simp
    have "distinct (map fst month_rows)"
      using post_keys [OF p pr] Cons.prems(3) row by simp
    from prog_month_loop_sorted [OF d sorted_desc_strict [OF this]] s1 obtain new1 where
      n1: "dowload_urls_map s2 = dowload_urls_map s @ new1"
        "\<forall>e \<in> set new1. year (fst e) = y"
        "newest_first new1"
      by auto
    from Cons.prems(2) have srt: "sorted_wrt (\<lambda>a b. fst b < fst a) rows"
      and less: "\<forall>b \<in> set rows. fst b < y" using row by auto
    have "\<forall>i \<in> snd ` set rows. distinct (keys_at month_key srv (p\<lparr>dir_url := i\<rparr>))"
      using Cons.prems(3) by simp
    from Cons.IH [OF rest srt this] obtain new2 where
      n2: "dowload_urls_map s' = dowload_urls_map s2 @ new2"
        "\<forall>e \<in> set new2. year (fst e) \<in> fst ` set rows"
        "newest_first new2"
      by blast
    have cross: "\<forall>a \<in> set new1. \<forall>b \<in> set new2. \<not> date_lt (fst a) (fst b)"
      using n1(2) n2(2) less by (fastforce simp: date_lt_def)
    have "newest_first (new1 @ new2)"
      using n1(3) n2(3) cross by (rule newest_first_append)
    moreover have "\<forall>e \<in> set (new1 @ new2). year (fst e) \<in> fst ` set (row # rows)"
      using n1(2) n2(2) row by auto
    ultimately show ?thesis using n1(1) n2(1) by (intro exI [of _ "new1 @ new2"]) simp
  qed
qed

lemma prog_run_sorted:
  assumes "get_urls_prog_dia srv T = Inr es" and "distinct_dirs srv prog_params"
  shows "newest_first es"
proof -
  from assms(1) obtain s where run: "get_urls_prog_dia_run srv T = Inr s"
    and es: "es = dowload_urls_map s"
    by (auto simp: get_urls_prog_dia_def split: sum.splits)
  from run obtain r s1 year_rows where
    p: "post srv prog_params (init_state :: prog_entry crawl_state) = Inr (r, s1)" and
    pr: "parse_rows year_key (links (body r)) = Inr year_rows" and
    y: "prog_year_loop srv T prog_params (sorted_desc fst year_rows) s1 = Inr s"
    by (auto simp: get_urls_prog_dia_run_def split: sum.splits)
  have "distinct (map fst year_rows)"
    using post_keys [OF p pr] assms(2) by (simp add: distinct_dirs_def)
  then have 1: "sorted_wrt (\<lambda>a b. fst b < fst a) (sorted_desc fst year_rows)"
    by (rule sorted_desc_strict)
  have 2: "\<forall>i \<in> snd ` set (sorted_desc fst year_rows).
          distinct (keys_at month_key srv (prog_params\<lparr>dir_url := i\<rparr>))"
    using post_links(2) [OF p pr] assms(2) by (simp add: distinct_dirs_def)
  from prog_year_loop_sorted [OF y 1 2] post_Inr [OF p] es show ?thesis
    by (auto simp: init_state_def)
qed


lemma versions_descend_append:
  "versions_descend xs \<Longrightarrow> versions_descend ys \<Longrightarrow>
   \<forall>a \<in> set xs. \<forall>b \<in> set ys. fst a \<noteq> fst b \<Longrightarrow> versions_descend (xs @ ys)"
  by (simp add: versions_descend_def sorted_wrt_append)

lemma reprog_version_loop_sorted:
  assumes "reprog_version_loop srv p date_obj rows s = Inr s'"
    and "sorted_wrt (\<lambda>a b. fst b \<le> fst a) rows"
  shows "\<exists>new. dowload_urls_map s' = dowload_urls_map s @ new
           \<and> (\<forall>e \<in> set new. fst e = date_obj \<and> fst (snd e) \<in> fst ` set rows)
           \<and> versions_descend new"
  using assms
proof (induction rows arbitrary: s)
  case Nil
  then show ?case by (simp add: versions_descend_def)
next
  case (Cons row rows)
  obtain v i where row: "row = (v, i)" by (cases row)
  show ?case
  proof (cases "stop s")
    case True
    with Cons.prems row show ?thesis by (simp add: versions_descend_def)
  next
    case False
    from Cons.prems(1) row False obtain r s1 s2 where
      p: "post srv (p\<lparr>dir_url := i\<rparr>) s = Inr (r, s1)" and
      f: "reprog_files_loop date_obj v (files (body r))
            (s1\<lparr>trace := trace s1 @
               [LogInfo (''Listing files of '' @ str_date date_obj @ '' - '' @ v)]\<rparr>) = Inr s2" and
      rest: "reprog_version_loop srv p date_obj rows s2 = Inr s'"
      by (auto split: sum.splits)
    from post_Inr [OF p] reprog_files_loop_Inr [OF f] obtain new1 where
      n1: "dowload_urls_map s2 = dowload_urls_map s @ new1"
        "\<forall>e \<in> set new1. fst e = date_obj \<and> fst (snd e) = v"
      by auto
    from Cons.prems(2) have srt: "sorted_wrt (\<lambda>a b. fst b \<le> fst a) rows"
      and le: "\<forall>b \<in> set rows. fst b \<le> v" using row by auto
    from Cons.IH [OF rest srt] obtain new2 where
      n2: "dowload_urls_map s' = dowload_urls_map s2 @ new2"
        "\<forall>e \<in> set new2. fst e = date_obj \<and> fst (snd e) \<in> fst ` set rows"
        "versions_descend new2"
      by blast
    have "versions_descend new1"
      unfolding versions_descend_def using n1(2) by (intro sorted_wrt_all) simp
    moreover have "\<forall>a \<in> set new1. \<forall>b \<in> set new2. fst (snd b) \<le> fst (snd a)"
      using n1(2) n2(2) le by fastforce
    ultimately have "versions_descend (new1 @ new2)"
      using n2(3) by (simp add: versions_descend_def sorted_wrt_append)
    moreover have "\<forall>e \<in> set (new1 @ new2). fst e = date_obj
                \<and> fst (snd e) \<in> fst ` set (row # rows)"
      using n1(2) n2(2) row by auto
    ultimately show ?thesis using n1(1) n2(1) by (intro exI [of _ "new1 @ new2"]) simp
  qed
qed

lemma reprog_day_loop_sorted:
  assumes "reprog_day_loop srv T p y m rows s = Inr s'"
    and "sorted_wrt (\<lambda>a b. fst b \<le> fst a) rows"
  shows "\<exists>new. dowload_urls_map s' = dowload_urls_map s @ new
           \<and> (\<forall>e \<in> set new. year (fst e) = y \<and> month (fst e) = m
                  \<and> day (fst e) \<in> fst ` set rows)
           \<and> newest_first new
           \<and> (sorted_wrt (\<lambda>a b. fst b < fst a) rows \<longrightarrow> versions_descend new)"
  using assms
proof (induction rows arbitrary: s)
  case Nil
  then show ?case by (simp add: newest_first_def versions_descend_def)
next
  case (Cons row rows)
  obtain d i where row: "row = (d, i)" by (cases row)
  show ?case
  proof (cases "stop s")
    case True
    with Cons.prems row show ?thesis by (simp add: newest_first_def versions_descend_def)
  next
    case False
    from Cons.prems(1) row False obtain r s1 date_obj where
      p: "post srv (p\<lparr>dir_url := i\<rparr>) s = Inr (r, s1)" and
      dt: "(mk_date y m d :: listing error + date) = Inr date_obj"
      by (auto split: sum.splits)
    from post_Inr [OF p] have s1: "s1 = s\<lparr>trace := trace s @ [Post (p\<lparr>dir_url := i\<rparr>)]\<rparr>" by simp
    note dd = mk_date_Inr [OF dt]
    show ?thesis
    proof (cases "date_lt date_obj T")
      case True
      with Cons.prems(1) row False p dt s1 show ?thesis
        by (auto simp: Let_def newest_first_def versions_descend_def)
    next
      case lt: False
      from Cons.prems(1) row False p dt lt obtain version_rows s3 where
        f: "reprog_version_loop srv p date_obj (sorted_desc fst version_rows)
              (s1\<lparr>trace := trace s1 @ [Resolved date_obj]\<rparr>) = Inr s3" and
        rest: "reprog_day_loop srv T p y m rows s3 = Inr s'"
        by (auto simp: Let_def split: sum.splits)
      from reprog_version_loop_sorted [OF f sorted_desc_sorted] s1 obtain new1 where
        n1: "dowload_urls_map s3 = dowload_urls_map s @ new1"
          "\<forall>e \<in> set new1. fst e = date_obj" "versions_descend new1"
        by auto
      from Cons.prems(2) have srt: "sorted_wrt (\<lambda>a b. fst b \<le> fst a) rows"
        and le: "\<forall>b \<in> set rows. fst b \<le> d" using row by auto
      from Cons.IH [OF rest srt] obtain new2 where
        n2: "dowload_urls_map s' = dowload_urls_map s3 @ new2"
          "\<forall>e \<in> set new2. year (fst e) = y \<and> month (fst e) = m \<and> day (fst e) \<in> fst ` set rows"
          "newest_first new2"
          "sorted_wrt (\<lambda>a b. fst b < fst a) rows \<longrightarrow> versions_descend new2"
        by blast
      have cross: "\<forall>a \<in> set new1. \<forall>b \<in> set new2. \<not> date_lt (fst a) (fst b)"
        using n1(2) n2(2) dd le by (fastforce simp: date_lt_def)
      have nf: "newest_first (new1 @ new2)"
        using newest_first_same_date [OF n1(2)] n2(3) cross by (rule newest_first_append)
      have vd: "versions_descend (new1 @ new2)"
        if strict: "sorted_wrt (\<lambda>a b. fst b < fst a) (row # rows)"
      proof -
        from strict row have "sorted_wrt (\<lambda>a b. fst b < fst a) rows"
          and less: "\<forall>b \<in> set rows. fst b < d" by auto
        with n2(4) have "versions_descend new2" by simp
        moreover have "\<forall>a \<in> set new1. \<forall>b \<in> set new2. fst a \<noteq> fst b"
          using n1(2) n2(2) dd less by fastforce
        ultimately show ?thesis using n1(3) by (intro versions_descend_append)
      qed
      have "\<forall>e \<in> set (new1 @ new2). year (fst e) = y \<and> month (fst e) = m
                  \<and> day (fst e) \<in> fst ` set (row # rows)"
        using n1(2) n2(2) dd row by auto
      with nf vd show ?thesis using n1(1) n2(1) by (intro exI [of _ "new1 @ new2"]) simp
    qed
  qed
qed

lemma reprog_month_loop_sorted:
  assumes "reprog_month_loop srv T p y rows s = Inr s'"
    and "sorted_wrt (\<lambda>a b. fst b < fst a) rows"
  shows "\<exists>new. dowload_urls_map s' = dowload_urls_map s @ new
           \<and> (\<forall>e \<in> set new. year (fst e) = y \<and> month (fst e) \<in> fst ` set rows)
           \<and> newest_first new
           \<and> ((\<forall>i \<in> snd ` set rows. distinct (keys_at day_key srv (p\<lparr>dir_url := i\<rparr>)))
                \<longrightarrow> versions_descend new)"
  using assms
proof (induction rows arbitrary: s)
  case Nil
  then show ?case by (simp add: newest_first_def versions_descend_def)
next
  case (Cons row rows)
  obtain m i where row: "row = (m, i)" by (cases row)
  show ?case
  proof (cases "stop s")
    case True
    with Cons.prems row show ?thesis by (simp add: newest_first_def versions_descend_def)
  next
    case False
    from Cons.prems(1) row False obtain r s1 day_rows s2 where
      p: "post srv (p\<lparr>dir_url := i\<rparr>) s = Inr (r, s1)" and
      pr: "parse_rows day_key (links (body r)) = Inr day_rows" and
      d: "reprog_day_loop srv T p y m (sorted_desc fst day_rows) s1 = Inr s2" and
      rest: "reprog_month_loop srv T p y rows s2 = Inr s'"
      by (auto split: sum.splits)
    from post_Inr [OF p] have s1: "dowload_urls_map s1 = dowload_urls_map s" by simp
    from reprog_day_loop_sorted [OF d sorted_desc_sorted] s1 obtain new1 where
      n1: "dowload_urls_map s2 = dowload_urls_map s @ new1"
        "\<forall>e \<in> set new1. year (fst e) = y \<and> month (fst e) = m"
        "newest_first new1"
        "sorted_wrt (\<lambda>a b. fst b < fst a) (sorted_desc fst day_rows) \<longrightarrow> versions_descend new1"
      by auto
    from Cons.prems(2) have srt: "sorted_wrt (\<lambda>a b. fst b < fst a) rows"
      and less: "\<forall>b \<in> set rows. fst b < m" using row by auto
    from Cons.IH [OF rest srt] obtain new2 where
      n2: "dowload_urls_map s' = dowload_urls_map s2 @ new2"
        "\<forall>e \<in> set new2. year (fst e) = y \<and> month (fst e) \<in> fst ` set rows"
        "newest_first new2"
        "(\<forall>i \<in> snd ` set rows. distinct (keys_at day_key srv (p\<lparr>dir_url := i\<rparr>)))
           \<longrightarrow> versions_descend new2"
      by blast
    have cross: "\<forall>a \<in> set new1. \<forall>b \<in> set new2. \<not> date_lt (fst a) (fst b)"
      using n1(2) n2(2) less by (fastforce simp: date_lt_def)
    have nf: "newest_first (new1 @ new2)"
      using n1(3) n2(3) cross by (rule newest_first_append)
    have vd: "versions_descend (new1 @ new2)"
      if dist: "\<forall>i \<in> snd ` set (row # rows). distinct (keys_at day_key srv (p\<lparr>dir_url := i\<rparr>))"
    proof -
      have "distinct (map fst day_rows)"
        using post_keys [OF p pr] dist row by simp
      with n1(4) have "versions_descend new1" by (simp add: sorted_desc_strict)
      moreover have "versions_descend new2" using n2(4) dist by simp
      moreover have "\<forall>a \<in> set new1. \<forall>b \<in> set new2. fst a \<noteq> fst b"
        using n1(2) n2(2) less by fastforce
      ultimately show ?thesis by (intro versions_descend_append)
    qed
    have "\<forall>e \<in> set (new1 @ new2). year (fst e) = y
                \<and> month (fst e) \<in> fst ` set (row # rows)"
      using n1(2) n2(2) row by auto
    with nf vd show ?thesis using n1(1) n2(1) by (intro exI [of _ "new1 @ new2"]) simp
  qed
qed

lemma reprog_year_loop_sorted:
  assumes "reprog_year_loop srv T p rows s = Inr s'"
    and "sorted_wrt (\<lambda>a b. fst b < fst a) rows"
    and "\<forall>i \<in> snd ` set rows. distinct (keys_at month_key srv (p\<lparr>dir_url := i\<rparr>))"
  shows "\<exists>new. dowload_urls_map s' = dowload_urls_map s @ new
           \<and> (\<forall>e \<in> set new. year (fst e) \<in> fst ` set rows)
           \<and> newest_first new
           \<and> ((\<forall>i \<in> snd ` set rows. \<forall>j \<in> set (link_ids srv (p\<lparr>dir_url := i\<rparr>)).
                   distinct (keys_at day_key srv (p\<lparr>dir_url := j\<rparr>)))
                \<longrightarrow> versions_descend new)"
  using assms
proof (induction rows arbitrary: s)
  case Nil
  then show ?case by (simp add: newest_first_def versions_descend_def)
next
  case (Cons row rows)
  obtain y i where row: "row = (y, i)" by (cases row)
  show ?case
  proof (cases "stop s")
    case True
    with Cons.prems row show ?thesis by (simp add: newest_first_def versions_descend_def)
  next
    case False
    from Cons.prems(1) row False obtain r s1 month_rows s2 where
      p: "post srv (p\<lparr>dir_url := i\<rparr>) s = Inr (r, s1)" and
      pr: "parse_rows month_key (links (body r)) = Inr month_rows" and
      d: "reprog_month_loop srv T p y (sorted_desc fst month_rows) s1 = Inr s2" and
      rest: "reprog_year_loop srv T p rows s2 = Inr s'"
      by (auto split: sum.splits)
    from post_Inr [OF p] have s1: "dowload_urls_map s1 = dowload_urls_map s" by simp
    have "distinct (map fst month_rows)"
      using post_keys [OF p pr] Cons.prems(3) row by simp
    from reprog_month_loop_sorted [OF d sorted_desc_strict [OF this], of ] s1 obtain new1 where
      n1: "dowload_urls_map s2 = dowload_urls_map s @ new1"
        "\<forall>e \<in> set new1. year (fst e) = y"
        "newest_first new1"
        "(\<forall>j \<in> snd ` set (sorted_desc fst month_rows).
             distinct (keys_at day_key srv (p\<lparr>dir_url := j\<rparr>))) \<longrightarrow> versions_descend new1"
      by auto
    from Cons.prems(2) have srt: "sorted_wrt (\<lambda>a b. fst b < fst a) rows"
      and less: "\<forall>b \<in> set rows. fst b < y" using row by auto
    have "\<forall>i \<in> snd ` set rows. distinct (keys_at month_key srv (p\<lparr>dir_url := i\<rparr>))"
      using Cons.prems(3) by simp
    from Cons.IH [OF rest srt this] obtain new2 where
      n2: "dowload_urls_map s' = dowload_urls_map s2 @ new2"
        "\<forall>e \<in> set new2. year (fst e) \<in> fst ` set rows"
        "newest_first new2"
        "(\<forall>i \<in> snd ` set rows. \<forall>j \<in> set (link_ids srv (p\<lparr>dir_url := i\<rparr>)).
             distinct (keys_at day_key srv (p\<lparr>dir_url := j\<rparr>))) \<longrightarrow> versions_descend new2"
      by blast
    have cross: "\<forall>a \<in> set new1. \<forall>b \<in> set new2. \<not> date_lt (fst a) (fst b)"
      using n1(2) n2(2) less by (fastforce simp: date_lt_def)
    have nf: "newest_first (new1 @ new2)"
      using n1(3) n2(3) cross by (rule newest_first_append)
    have vd: "versions_descend (new1 @ new2)"
      if dist: "\<forall>i \<in> snd ` set (row # rows). \<forall>j \<in> set (link_ids srv (p\<lparr>dir_url := i\<rparr>)).
                   distinct (keys_at day_key srv (p\<lparr>dir_url := j\<rparr>))"
    proof -
      have "\<forall>j \<in> snd ` set (sorted_desc fst month_rows).
              distinct (keys_at day_key srv (p\<lparr>dir_url := j\<rparr>))"
        using post_links(2) [OF p pr] dist row by simp
      with n1(4) have "versions_descend new1" by simp
      moreover have "versions_descend new2" using n2(4) dist by simp
      moreover have "\<forall>a \<in> set new1. \<forall>b \<in> set new2. fst a \<noteq> fst b"
        using n1(2) n2(2) less by fastforce
      ultimately show ?thesis by (intro versions_descend_append)
    qed
    have "\<forall>e \<in> set (new1 @ new2). year (fst e) \<in> fst ` set (row # rows)"
      using n1(2) n2(2) row by auto
    with nf vd show ?thesis using n1(1) n2(1) by (intro exI [of _ "new1 @ new2"]) simp
  qed
qed

lemma reprog_run_sorted:
  assumes "get_urls_reprog_dia srv T = Inr es" and "distinct_dirs srv reprog_params"
  shows "newest_first es \<and> (distinct_days srv reprog_params \<longrightarrow> versions_descend es)"
proof -
  from assms(1) obtain s where run: "get_urls_reprog_dia_run srv T = Inr s"
    and es: "es = dowload_urls_map s"
    by (auto simp: get_urls_reprog_dia_def split: sum.splits)
  from run obtain r s1 year_rows where
    p: "post srv reprog_params (init_state :: reprog_entry crawl_state) = Inr (r, s1)" and
    pr: "parse_rows year_key (links (body r)) = Inr year_rows" and
    y: "reprog_year_loop srv T reprog_params (sorted_desc fst year_rows) s1 = Inr s"
    by (auto simp: get_urls_reprog_dia_run_def split: sum.splits)
  have "distinct (map fst year_rows)"
    using post_keys [OF p pr] assms(2) by (simp add: distinct_dirs_def)
  then have 1: "sorted_wrt (\<lambda>a b. fst b < fst a) (sorted_desc fst year_rows)"
    by (rule sorted_desc_strict)
  have 2: "\<forall>i \<in> snd ` set (sorted_desc fst year_rows).
          distinct (keys_at month_key srv (reprog_params\<lparr>dir_url := i\<rparr>))"
    using post_links(2) [OF p pr] assms(2) by (simp add: distinct_dirs_def)
  from reprog_year_loop_sorted [OF y 1 2] post_Inr [OF p] es
    post_links(2) [OF p pr]
  show ?thesis
    by (auto simp: init_state_def distinct_days_def)
qed


lemma sorted_desc_stable:
  "filter (\<lambda>r. k r = a) (sorted_desc k xs) = filter (\<lambda>r. k r = a) xs"
proof -
  have "filter (\<lambda>r. k r = a) (sort_key k (rev xs)) = filter (\<lambda>r. k r = a) (rev xs)"
    by (rule sort_key_stable)
  then show ?thesis
    by (simp add: sorted_desc_def rev_filter [symmetric])
qed

text \<open>
  Claim C9, as amended. At every level the crawlers enumerate the rows of a listing in
  descending order of their keys, rows with equal keys in the order of the listing;
  the order is strictly descending when the keys are distinct. The returned list is in
  the order of discovery: when no two years of the base listing and no two months of a
  year have the same key, the dates of the entries never increase along the list, and
  when moreover no two days of a month have the same key, the version labels never
  increase among the entries of one date.
\<close>

theorem crawl_order:
  "sorted_wrt (\<lambda>a b. fst b \<le> fst a) (sorted_desc fst rows)
   \<and> filter (\<lambda>r. fst r = k) (sorted_desc fst rows) = filter (\<lambda>r. fst r = k) rows
   \<and> (distinct (map fst rows) \<longrightarrow> sorted_wrt (\<lambda>a b. fst b < fst a) (sorted_desc fst rows))
   \<and> (distinct_dirs srv prog_params \<and> get_urls_prog_dia srv T = Inr es \<longrightarrow> newest_first es)
   \<and> (distinct_dirs srv reprog_params \<and> get_urls_reprog_dia srv T = Inr es'
        \<longrightarrow> newest_first es')
   \<and> (distinct_dirs srv reprog_params \<and> distinct_days srv reprog_params
        \<and> get_urls_reprog_dia srv T = Inr es' \<longrightarrow> versions_descend es')"
  using sorted_desc_sorted [of fst rows] sorted_desc_stable [of fst k rows]
    sorted_desc_strict [of fst rows] prog_run_sorted [of srv T es]
    reprog_run_sorted [of srv T es']
  by blast

theorem crawl_order_witness:
  "distinct_dirs uniform_portal prog_params
   \<and> get_urls_prog_dia uniform_portal early_T =
       Inr [(\<lparr>year = 2024, month = 1, day = 2\<rparr>, ''p240102.xlsx'', ''/f/p240102.xlsx''),
            (\<lparr>year = 2024, month = 1, day = 1\<rparr>, ''p240101.xlsx'', ''/f/p240101.xlsx''),
            (\<lparr>year = 2023, month = 12, day = 31\<rparr>, ''p231231.xlsx'', ''/f/p231231.xlsx''),
            (\<lparr>year = 2023, month = 12, day = 30\<rparr>, ''p231230.xlsx'', ''/f/p231230.xlsx'')]
   \<and> newest_first
        [(\<lparr>year = 2024, month = 1, day = 2\<rparr>, ''p240102.xlsx'', ''/f/p240102.xlsx''),
         (\<lparr>year = 2024, month = 1, day = 1\<rparr>, ''p240101.xlsx'', ''/f/p240101.xlsx''),
         (\<lparr>year = 2023, month = 12, day = 31\<rparr>, ''p231231.xlsx'', ''/f/p231231.xlsx''),
         (\<lparr>year = 2023, month = 12, day = 30\<rparr>, ''p231230.xlsx'', ''/f/p231230.xlsx'')]
   \<and> distinct_dirs uniform_portal reprog_params
   \<and> distinct_days uniform_portal reprog_params
   \<and> get_urls_reprog_dia uniform_portal early_T =
       Inr [(\<lparr>year = 2024, month = 1, day = 1\<rparr>, ''B'', ''r0101b.xlsx'', ''/f/r0101b.xlsx''),
            (\<lparr>year = 2024, month = 1, day = 1\<rparr>, ''A'', ''r0101a.xlsx'', ''/f/r0101a.xlsx'')]
   \<and> versions_descend
        [(\<lparr>year = 2024, month = 1, day = 1\<rparr>, ''B'', ''r0101b.xlsx'', ''/f/r0101b.xlsx''),
         (\<lparr>year = 2024, month = 1, day = 1\<rparr>, ''A'', ''r0101a.xlsx'', ''/f/r0101a.xlsx'')]"
proof -
  let ?E1 = "[(\<lparr>year = 2024, month = 1, day = 2\<rparr>, ''p240102.xlsx'', ''/f/p240102.xlsx''),
            (\<lparr>year = 2024, month = 1, day = 1\<rparr>, ''p240101.xlsx'', ''/f/p240101.xlsx''),
            (\<lparr>year = 2023, month = 12, day = 31\<rparr>, ''p231231.xlsx'', ''/f/p231231.xlsx''),
            (\<lparr>year = 2023, month = 12, day = 30\<rparr>, ''p231230.xlsx'', ''/f/p231230.xlsx'')]"
  let ?E2 = "[(\<lparr>year = 2024, month = 1, day = 1\<rparr>, ''B'', ''r0101b.xlsx'', ''/f/r0101b.xlsx''),
            (\<lparr>year = 2024, month = 1, day = 1\<rparr>, ''A'', ''r0101a.xlsx'', ''/f/r0101a.xlsx'')]"
  have 1: "distinct_dirs uniform_portal prog_params" by code_simp
  have 2: "get_urls_prog_dia uniform_portal early_T = Inr ?E1" by code_simp
  have 3: "distinct_dirs uniform_portal reprog_params" by code_simp
  have 4: "distinct_days uniform_portal reprog_params" by code_simp
  have 5: "get_urls_reprog_dia uniform_portal early_T = Inr ?E2" by code_simp
  show ?thesis
    using crawl_order [of "[]" "0::int" uniform_portal early_T ?E1 ?E2] 1 2 3 4 5
    by blast
qed

text \<open>
  The claim as stated fails where two rows of a listing have the same key: the two
  Januaries are enumerated one after the other (keys 1, 1: not strictly descending),
  and the returned dates go from 1 January back up to 2 January.
\<close>

theorem crawl_order_counterexample:
  "get_urls_prog_dia tied_portal early_T =
     Inr [(\<lparr>year = 2024, month = 1, day = 2\<rparr>, ''es0102.xlsx'', ''/f/es0102.xlsx''),
          (\<lparr>year = 2024, month = 1, day = 1\<rparr>, ''es0101.xlsx'', ''/f/es0101.xlsx''),
          (\<lparr>year = 2024, month = 1, day = 2\<rparr>, ''en0102.xlsx'', ''/f/en0102.xlsx''),
          (\<lparr>year = 2024, month = 1, day = 1\<rparr>, ''en0101.xlsx'', ''/f/en0101.xlsx'')]
   \<and> \<not> newest_first
        [(\<lparr>year = 2024, month = 1, day = 2\<rparr>, ''es0102.xlsx'', ''/f/es0102.xlsx''),
         (\<lparr>year = 2024, month = 1, day = 1\<rparr>, ''es0101.xlsx'', ''/f/es0101.xlsx''),
         (\<lparr>year = 2024, month = 1, day = 2\<rparr>, ''en0102.xlsx'', ''/f/en0102.xlsx''),
         (\<lparr>year = 2024, month = 1, day = 1\<rparr>, ''en0101.xlsx'', ''/f/en0101.xlsx'')]
   \<and> map fst (sorted_desc fst [(1::int, ''P/2024/01_Enero/''), (1, ''P/2024/01_January/'')])
       = [1, 1]"
  by code_simp

section \<open>The reprogram version label\<close>

lemma last_split_on_takeWhile:
  "last (split_on c s) = rev (takeWhile (\<lambda>x. x \<noteq> c) (rev s))"
proof (cases "c \<in> set s")
  case False
  then have "\<forall>x \<in> set (rev s). x \<noteq> c" by auto
  then have tw: "takeWhile (\<lambda>x. x \<noteq> c) (rev s) = rev s"
    by (simp only: takeWhile_eq_all_conv)
  have "rev (takeWhile (\<lambda>x. x \<noteq> c) (rev s)) = s"
    by (simp only: tw rev_rev_ident)
  moreover have "last (split_on c s) = s" using False by (simp add: split_on_no_sep)
  ultimately show ?thesis by simp
next
  case True
  then obtain xs t where s: "s = xs @ c # t" and t: "c \<notin> set t"
    by (auto dest: split_list_last)
  have "takeWhile (\<lambda>x. x \<noteq> c) (rev t @ c # rev xs) = rev t"
    using t by (subst takeWhile_append2) auto
  with s t show ?thesis by (simp add: last_split_on_sep)
qed

lemma takeWhile_takeWhile_conj:
  "takeWhile P (takeWhile Q xs) = takeWhile (\<lambda>x. P x \<and> Q x) xs"
  by (induction xs) auto

lemma reprog_version_letters:
  "reprog_version i = filter is_ascii_letter (last_token i)"
  by (simp add: reprog_version_def last_segment_def keep_letters_def last_token_def
        last_split_on_takeWhile takeWhile_takeWhile_conj)

lemma parse_rows_key:
  "parse_rows key ls = Inr rows \<Longrightarrow> \<forall>r \<in> set rows. key (snd r) = Inr (fst r)"
  by (induction ls arbitrary: rows) (auto split: option.splits sum.splits)

lemma reprog_files_loop_entries:
  "reprog_files_loop d v fs s = Inr s' \<Longrightarrow>
     \<exists>new. dowload_urls_map s' = dowload_urls_map s @ new
       \<and> (\<forall>e \<in> set new. fst (snd e) = v \<and> Some (snd (snd (snd e))) \<in> set fs
             \<and> fst (snd (snd e)) = file_name (snd (snd (snd e))))"
proof (induction fs arbitrary: s)
  case Nil
  then show ?case by simp
next
  case (Cons f fs)
  then obtain u where f: "f = Some u" by (cases f) auto
  let ?s1 = "s\<lparr>dowload_urls_map := dowload_urls_map s @ [(d, v, file_name u, u)]\<rparr>"
  from Cons.prems f have "reprog_files_loop d v fs ?s1 = Inr s'" by simp
  from Cons.IH [OF this] obtain new where
    n: "dowload_urls_map s' = dowload_urls_map ?s1 @ new"
       "\<forall>e \<in> set new. fst (snd e) = v \<and> Some (snd (snd (snd e))) \<in> set fs
             \<and> fst (snd (snd e)) = file_name (snd (snd (snd e)))"
    by blast
  show ?case
    by (rule exI [of _ "(d, v, file_name u, u) # new"]) (use n f in auto)
qed

lemma reprog_version_loop_entries:
  assumes "reprog_version_loop srv p d rows s = Inr s'"
    and "all_entries_of srv p s"
    and "\<forall>r \<in> set rows. fst r = reprog_version (snd r)
           \<and> (\<exists>j rj. srv (p\<lparr>dir_url := j\<rparr>) = Inr rj \<and> Some (snd r) \<in> set (links (body rj)))"
  shows "all_entries_of srv p s'"
  using assms
proof (induction rows arbitrary: s)
  case Nil
  then show ?case by simp
next
  case (Cons row rows)
  obtain v i where row: "row = (v, i)" by (cases row)
  show ?case
  proof (cases "stop s")
    case True
    with Cons.prems row show ?thesis by simp
  next
    case False
    with Cons.prems(1) row obtain r s1 where p: "post srv (p\<lparr>dir_url := i\<rparr>) s = Inr (r, s1)"
      by (auto split: sum.splits)
    from post_Inr [OF p] have s1: "s1 = s\<lparr>trace := trace s @ [Post (p\<lparr>dir_url := i\<rparr>)]\<rparr>"
      and r: "srv (p\<lparr>dir_url := i\<rparr>) = Inr r" by simp_all
    let ?s1 = "s1\<lparr>trace := trace s1 @ [LogInfo (''Listing files of '' @ str_date d @ '' - '' @ v)]\<rparr>"
    from Cons.prems(1) row False p obtain s2 where
      f: "reprog_files_loop d v (files (body r)) ?s1 = Inr s2"
      and rest: "reprog_version_loop srv p d rows s2 = Inr s'"
      by (auto split: sum.splits)
    from reprog_files_loop_entries [OF f] obtain new where
      n: "dowload_urls_map s2 = dowload_urls_map ?s1 @ new"
         "\<forall>e \<in> set new. fst (snd e) = v \<and> Some (snd (snd (snd e))) \<in> set (files (body r))
             \<and> fst (snd (snd e)) = file_name (snd (snd (snd e)))"
      by blast
    from Cons.prems(3) row obtain j rj where
      j: "v = reprog_version i" "srv (p\<lparr>dir_url := j\<rparr>) = Inr rj" "Some i \<in> set (links (body rj))"
      by auto
    have "\<forall>e \<in> set new. entry_of srv p j i e"
      using n(2) j r by (auto simp: entry_of_def)
    then have "all_entries_of srv p s2"
      using Cons.prems(2) n(1) s1 unfolding all_entries_of_def by auto
    from Cons.IH [OF rest this] Cons.prems(3) show ?thesis by simp
  qed
qed

lemma reprog_day_loop_entries:
  assumes "reprog_day_loop srv T p y m rows s = Inr s'" and "all_entries_of srv p s"
  shows "all_entries_of srv p s'"
  using assms
proof (induction rows arbitrary: s)
  case Nil
  then show ?case by simp
next
  case (Cons row rows)
  obtain k i where row: "row = (k, i)" by (cases row)
  show ?case
  proof (cases "stop s")
    case True
    with Cons.prems row show ?thesis by simp
  next
    case False
    with Cons.prems(1) row obtain r s1 where p: "post srv (p\<lparr>dir_url := i\<rparr>) s = Inr (r, s1)"
      by (auto split: sum.splits)
    from post_Inr [OF p] have s1: "s1 = s\<lparr>trace := trace s @ [Post (p\<lparr>dir_url := i\<rparr>)]\<rparr>"
      and r: "srv (p\<lparr>dir_url := i\<rparr>) = Inr r" by simp_all
    from Cons.prems(1) row False p obtain dd where
      d: "(mk_date y m k :: listing error + date) = Inr dd"
      by (auto split: sum.splits)
    let ?s2 = "s1\<lparr>trace := trace s1 @ [Resolved dd]\<rparr>"
    show ?thesis
    proof (cases "date_lt dd T")
      case True
      with Cons.prems(1) row False p d have "s' = ?s2\<lparr>stop := True\<rparr>"
        by (simp add: Let_def)
      with Cons.prems(2) s1 show ?thesis by (simp add: all_entries_of_def)
    next
      case lt: False
      with Cons.prems(1) row False p d obtain vs s3 where
        pr: "parse_rows reprog_key (links (body r)) = Inr vs"
        and v: "reprog_version_loop srv p dd (sorted_desc fst vs) ?s2 = Inr s3"
        and rest: "reprog_day_loop srv T p y m rows s3 = Inr s'"
        by (auto simp: Let_def split: sum.splits)
      have a: "all_entries_of srv p ?s2"
        using Cons.prems(2) s1 by (simp add: all_entries_of_def)
      have "\<forall>x \<in> set (sorted_desc fst vs). fst x = reprog_version (snd x)
           \<and> (\<exists>j rj. srv (p\<lparr>dir_url := j\<rparr>) = Inr rj \<and> Some (snd x) \<in> set (links (body rj)))"
      proof
        fix x assume "x \<in> set (sorted_desc fst vs)"
        then have x: "x \<in> set vs" by simp
        with parse_rows_key [OF pr] have "fst x = reprog_version (snd x)"
          by (auto simp: reprog_key_def)
        moreover from parse_rows_Inr [OF pr] x have "Some (snd x) \<in> set (links (body r))"
          by auto
        ultimately show "fst x = reprog_version (snd x)
           \<and> (\<exists>j rj. srv (p\<lparr>dir_url := j\<rparr>) = Inr rj \<and> Some (snd x) \<in> set (links (body rj)))"
          using r by blast
      qed
      from reprog_version_loop_entries [OF v a this] have "all_entries_of srv p s3" .
      from Cons.IH [OF rest this] show ?thesis .
    qed
  qed
qed

lemma reprog_month_loop_entries:
  assumes "reprog_month_loop srv T p y rows s = Inr s'" and "all_entries_of srv p s"
  shows "all_entries_of srv p s'"
  using assms
proof (induction rows arbitrary: s)
  case Nil
  then show ?case by simp
next
  case (Cons row rows)
  obtain k i where row: "row = (k, i)" by (cases row)
  show ?case
  proof (cases "stop s")
    case True
    with Cons.prems row show ?thesis by simp
  next
    case False
    with Cons.prems(1) row obtain r s1 ds s2 where
      p: "post srv (p\<lparr>dir_url := i\<rparr>) s = Inr (r, s1)"
      and l: "reprog_day_loop srv T p y k (sorted_desc fst ds) s1 = Inr s2"
      and rest: "reprog_month_loop srv T p y rows s2 = Inr s'"
      by (auto split: sum.splits)
    from post_Inr [OF p] Cons.prems(2) have "all_entries_of srv p s1"
      by (simp add: all_entries_of_def)
    from Cons.IH [OF rest reprog_day_loop_entries [OF l this]] show ?thesis .
  qed
qed

lemma reprog_year_loop_entries:
  assumes "reprog_year_loop srv T p rows s = Inr s'" and "all_entries_of srv p s"
  shows "all_entries_of srv p s'"
  using assms
proof (induction rows arbitrary: s)
  case Nil
  then show ?case by simp
next
  case (Cons row rows)
  obtain k i where row: "row = (k, i)" by (cases row)
  show ?case
  proof (cases "stop s")
    case True
    with Cons.prems row show ?thesis by simp
  next
    case False
    with Cons.prems(1) row obtain r s1 ds s2 where
      p: "post srv (p\<lparr>dir_url := i\<rparr>) s = Inr (r, s1)"
      and l: "reprog_month_loop srv T p k (sorted_desc fst ds) s1 = Inr s2"
      and rest: "reprog_year_loop srv T p rows s2 = Inr s'"
      by (auto split: sum.splits)
    from post_Inr [OF p] Cons.prems(2) have "all_entries_of srv p s1"
      by (simp add: all_entries_of_def)
    from Cons.IH [OF rest reprog_month_loop_entries [OF l this]] show ?thesis .
  qed
qed

lemma reprog_run_entries:
  assumes "get_urls_reprog_dia_run srv T = Inr s"
  shows "all_entries_of srv reprog_params s"
proof -
  from assms obtain r s1 ys where
    p: "post srv reprog_params init_state = Inr (r, s1)"
    and l: "reprog_year_loop srv T reprog_params (sorted_desc fst ys) s1 = Inr s"
    by (auto simp: get_urls_reprog_dia_run_def split: sum.splits)
  from post_Inr [OF p] have "all_entries_of srv reprog_params s1"
    by (simp add: all_entries_of_def init_state_def)
  from reprog_year_loop_entries [OF l this] show ?thesis .
qed

text \<open>
  Claim C3, as amended. The version label of every entry \<open>get_urls_reprog_dia\<close> returns
  is computed from the identifier of the version directory whose listing holds the
  entry's file, and for every identifier it is made of the ASCII letters of the last
  token of the identifier (what follows its last space or slash, closing slashes apart),
  not of the whole final path segment: \<open>.../Reprog 0115B/\<close> gives \<open>B\<close>,
  \<open>.../Reprog 0115/\<close> gives the empty label and \<open>.../ReprogB/\<close> gives \<open>ReprogB\<close>.
\<close>

theorem reprog_version_last_token:
  "reprog_version i = filter is_ascii_letter (last_token i)
   \<and> (get_urls_reprog_dia srv T = Inr es \<longrightarrow>
        (\<forall>e \<in> set es. \<exists>j k. entry_of srv reprog_params j k e
            \<and> fst (snd e) = filter is_ascii_letter (last_token k)))"
proof (intro conjI impI ballI)
  show "reprog_version i = filter is_ascii_letter (last_token i)"
    by (rule reprog_version_letters)
next
  fix e assume g: "get_urls_reprog_dia srv T = Inr es" and e: "e \<in> set es"
  from g obtain s where s: "get_urls_reprog_dia_run srv T = Inr s" "es = dowload_urls_map s"
    by (auto simp: get_urls_reprog_dia_def split: sum.splits)
  from reprog_run_entries [OF s(1)] e s(2) obtain j i where
    "entry_of srv reprog_params j i e"
    by (auto simp: all_entries_of_def)
  moreover from this have "fst (snd e) = reprog_version i"
    by (auto simp: entry_of_def split: sum.splits)
  ultimately show "\<exists>j i. entry_of srv reprog_params j i e
            \<and> fst (snd e) = filter is_ascii_letter (last_token i)"
    using reprog_version_letters by metis
qed

theorem reprog_version_last_token_witness:
  "get_urls_reprog_dia demo_portal demo_T
     = Inr [(demo_T, ''B'', ''r0131b.xlsx'', ''/f/r0131b.xlsx''),
            (demo_T, ''A'', ''r0131a.xlsx'', ''/f/r0131a.xlsx'')]
   \<and> (\<exists>j i. entry_of demo_portal reprog_params j i
               (demo_T, ''B'', ''r0131b.xlsx'', ''/f/r0131b.xlsx'')
          \<and> ''B'' = filter is_ascii_letter (last_token i))
   \<and> (\<exists>j i. entry_of demo_portal reprog_params j i
               (demo_T, ''A'', ''r0131a.xlsx'', ''/f/r0131a.xlsx'')
          \<and> ''A'' = filter is_ascii_letter (last_token i))
   \<and> reprog_version ''2024/01_Enero/Dia 15/Reprog 0115B/'' = ''B''
   \<and> reprog_version ''2024/01_Enero/Dia 15/Reprog 0115/'' = []
   \<and> reprog_version ''2024/01_Enero/Dia 15/ReprogB/'' = ''ReprogB''"
proof -
  let ?b = "(demo_T, ''B'', ''r0131b.xlsx'', ''/f/r0131b.xlsx'')"
  let ?a = "(demo_T, ''A'', ''r0131a.xlsx'', ''/f/r0131a.xlsx'')"
  have g: "get_urls_reprog_dia demo_portal demo_T = Inr [?b, ?a]" by code_simp
  have 1: "filter is_ascii_letter (last_token ''2024/01_Enero/Dia 15/Reprog 0115B/'') = ''B''"
    by code_simp
  have 2: "filter is_ascii_letter (last_token ''2024/01_Enero/Dia 15/Reprog 0115/'') = []"
    by code_simp
  have 3: "filter is_ascii_letter (last_token ''2024/01_Enero/Dia 15/ReprogB/'') = ''ReprogB''"
    by code_simp
  note t = reprog_version_last_token
             [of "''2024/01_Enero/Dia 15/Reprog 0115B/''" demo_portal demo_T "[?b, ?a]"]
  from t g have e: "\<forall>e \<in> set [?b, ?a]. \<exists>j i. entry_of demo_portal reprog_params j i e
            \<and> fst (snd e) = filter is_ascii_letter (last_token i)"
    by blast
  from e have eb: "\<exists>j i. entry_of demo_portal reprog_params j i ?b
            \<and> ''B'' = filter is_ascii_letter (last_token i)"
    by simp
  from e have ea: "\<exists>j i. entry_of demo_portal reprog_params j i ?a
            \<and> ''A'' = filter is_ascii_letter (last_token i)"
    by simp
  from t 1 have l1: "reprog_version ''2024/01_Enero/Dia 15/Reprog 0115B/'' = ''B''"
    by simp
  from reprog_version_last_token [of "''2024/01_Enero/Dia 15/Reprog 0115/''"] 2
  have l2: "reprog_version ''2024/01_Enero/Dia 15/Reprog 0115/'' = []"
    by simp
  from reprog_version_last_token [of "''2024/01_Enero/Dia 15/ReprogB/''"] 3
  have l3: "reprog_version ''2024/01_Enero/Dia 15/ReprogB/'' = ''ReprogB''"
    by simp
  from g eb ea l1 l2 l3 show ?thesis by blast
qed

text \<open>
  The claim as stated fails: the letters of the whole final segment \<open>Reprog 0115B\<close> are
  \<open>ReprogB\<close> while the label is \<open>B\<close>, and a final segment that ends in \<open>ReprogramB\<close>
  gives the label \<open>ReprogramB\<close>, not \<open>B\<close>.
\<close>

theorem reprog_version_counterexample:
  "reprog_version ''2024/01_Enero/Dia 15/Reprog 0115B/''
     \<noteq> keep_letters (last_segment ''2024/01_Enero/Dia 15/Reprog 0115B/'')
   \<and> reprog_version ''2024/01_Enero/Dia 15/Version ReprogramB/'' \<noteq> ''B''"
  by code_simp

section \<open>Properties of the tables\<close>

lemma for_each_Inr:
  "for_each f xs = Inr ys \<Longrightarrow> list_all2 (\<lambda>x y. f x = Inr y) xs ys"
  by (induction xs arbitrary: ys) (auto split: sum.splits)

lemma to_datetime_Inr:
  assumes "to_datetime lib fmt col = Inr ys"
  shows "ys = map (\<lambda>c. stamp_opt (read_value lib fmt c)) col"
    and "\<forall>c \<in> set col. read_value lib fmt c \<noteq> No_match"
proof -
  from for_each_Inr [OF assms [unfolded to_datetime_def]]
  have a: "list_all2 (\<lambda>c y. read_value lib fmt c \<noteq> No_match
                           \<and> y = stamp_opt (read_value lib fmt c)) col ys"
    by (rule list_all2_mono) (auto simp: stamp_opt_def split: reading.splits)
  then show "ys = map (\<lambda>c. stamp_opt (read_value lib fmt c)) col"
    by (induction col ys rule: list_all2_induct) auto
  from a show "\<forall>c \<in> set col. read_value lib fmt c \<noteq> No_match"
    by (induction col ys rule: list_all2_induct) auto
qed


lemma find_column_Inr:
  assumes "find_column name cols = Inr j"
  shows "j < length cols" and "cols ! j = name"
proof -
  define tw where "tw = takeWhile (\<lambda>c. c \<noteq> name) cols"
  define dw where "dw = dropWhile (\<lambda>c. c \<noteq> name) cols"
  from assms have mem: "name \<in> set cols" and j: "j = length tw"
    by (auto simp: find_column_def tw_def split: if_splits)
  have cols: "cols = tw @ dw" by (simp add: tw_def dw_def)
  have tw: "name \<notin> set tw" by (auto simp: tw_def dest: set_takeWhileD)
  with mem cols have "dw \<noteq> []" by auto
  then obtain x rest where dw: "dw = x # rest" by (cases dw) auto
  have "x = name" using dw hd_dropWhile [of "\<lambda>c. c \<noteq> name" cols] by (simp add: dw_def)
  with cols dw have split: "cols = tw @ name # rest" by simp
  show "j < length cols" by (simp add: split j)
  show "cols ! j = name" by (simp add: split j)
qed

lemma length_row_cells [simp]: "length (row_cells d n r) = n"
  by (simp add: row_cells_def)


lemma zip_map_both: "zip (map f xs) (map g xs) = map (\<lambda>x. (f x, g x)) xs"
  by (induction xs) auto




lemma time_cell_naive:
  "time_cell (map_option naive (stamp_opt rd)) = stamp_of None rd"
  by (simp add: time_cell_def naive_def stamp_opt_def stamp_of_def split: reading.splits)


lemma normalize_medidores_Inr:
  fixes lib :: "'n library"
  assumes "normalize_medidores lib raw = Inr df"
  shows "\<exists>j. (find_column ''fechahora'' (map strip_space (columns raw)) :: 'n failure + nat) = Inr j
           \<and> j < length (columns raw)
           \<and> columns df = ''fechahora'' # drop_at j (map strip_space (columns raw))
           \<and> (\<forall>r \<in> set (data_rows raw).
                 read_value lib ''%d/%m/%Y %H:%M''
                   (map_option JStr (row_cells None (length (columns raw)) r ! j)) \<noteq> No_match)
           \<and> data_rows df = map (normal_row lib j (length (columns raw)))
                               (filter (kept_row lib j (length (columns raw))) (data_rows raw))"
proof -
  let ?n = "length (columns raw)"
  let ?data = "raw\<lparr>columns := map strip_space (columns raw)\<rparr>"
  let ?fmt = "''%d/%m/%Y %H:%M''"
  from assms obtain j fechahora where
    j: "(find_column ''fechahora'' (map strip_space (columns raw)) :: 'n failure + nat) = Inr j"
    and t: "to_datetime lib ?fmt (map (map_option JStr) (get_column None j ?data)) = Inr fechahora"
    and df: "df = reset_index (dropna_all (apply_to_numeric lib (set_index j fechahora None ?data)))"
    by (auto simp: normalize_medidores_def Let_def split: sum.splits)
  from find_column_Inr [OF j] have jn: "j < ?n" and name: "map strip_space (columns raw) ! j = ''fechahora''"
    by simp_all
  have col: "map (map_option JStr) (get_column None j ?data)
               = map (\<lambda>r. map_option JStr (row_cells None ?n r ! j)) (data_rows raw)"
    by (simp add: get_column_def)
  from to_datetime_Inr [OF t] have
    f: "fechahora = map (\<lambda>r. stamp_opt (read_value lib ?fmt
                                 (map_option JStr (row_cells None ?n r ! j)))) (data_rows raw)"
    and ok: "\<forall>r \<in> set (data_rows raw).
                 read_value lib ?fmt (map_option JStr (row_cells None ?n r ! j)) \<noteq> No_match"
    by (simp_all add: col comp_def)
  have cols: "columns df = ''fechahora'' # drop_at j (map strip_space (columns raw))"
    using name by (simp add: df reset_index_def dropna_all_def apply_to_numeric_def set_index_def)
  have nr: "normal_row lib j ?n
              = (\<lambda>r. stamp_of None (read_value lib ?fmt (map_option JStr (row_cells None ?n r ! j)))
                       # map (\<lambda>c. num_cell (to_numeric lib c)) (drop_at j (row_cells None ?n r)))"
    by (rule ext) (simp add: normal_row_def numeric_cells_def comp_def)
  have kr: "kept_row lib j ?n
              = (\<lambda>r. list_ex (\<lambda>c. c \<noteq> None)
                        (map (to_numeric lib) (drop_at j (row_cells None ?n r))))"
    by (rule ext) (simp add: kept_row_def numeric_cells_def)
  have rows: "data_rows df = map (normal_row lib j ?n) (filter (kept_row lib j ?n) (data_rows raw))"
    unfolding df f nr kr
    by (simp add: reset_index_def dropna_all_def apply_to_numeric_def set_index_def
          zip_map_both filter_map comp_def time_cell_naive)
  from j jn cols ok rows show ?thesis by blast
qed

lemma get_medidores_generacion_Inr:
  assumes "get_medidores_generacion lib session a b = Inr df"
  shows "\<exists>res raw. get_descargar session = Inr res \<and> csv (body res) = Some raw
           \<and> normalize_medidores lib raw = Inr df"
  using assms
  by (auto simp: get_medidores_generacion_def checked_def Let_def
           split: sum.splits option.splits)


text \<open>
  Claim C5. When \<open>get_medidores_generacion\<close> returns a table, the table comes from the
  CSV of the download in this way: the headers are trimmed; the column
  \<open>fechahora\<close> is read with the format \<open>%d/%m/%Y %H:%M\<close> (no text of it fails to match)
  and comes first; every other cell is the number the library reads from its text, and
  missing when it reads none or when the field is empty; the rows without any number are
  dropped, the others kept in their order.
\<close>

theorem medidores_normalized:
  fixes lib :: "'n library"
  assumes "get_medidores_generacion lib session a b = Inr df"
  shows "\<exists>res raw j.
           get_descargar session = Inr res \<and> csv (body res) = Some raw
           \<and> (find_column ''fechahora'' (map strip_space (columns raw)) :: 'n failure + nat) = Inr j
           \<and> columns df = ''fechahora'' # drop_at j (map strip_space (columns raw))
           \<and> (\<forall>r \<in> set (data_rows raw).
                 read_value lib ''%d/%m/%Y %H:%M''
                   (map_option JStr (row_cells None (length (columns raw)) r ! j)) \<noteq> No_match)
           \<and> data_rows df = map (normal_row lib j (length (columns raw)))
                               (filter (kept_row lib j (length (columns raw))) (data_rows raw))"
proof -
  from get_medidores_generacion_Inr [OF assms] obtain res raw where
    r: "get_descargar session = Inr res" "csv (body res) = Some raw"
    and n: "normalize_medidores lib raw = Inr df"
    by blast
  from normalize_medidores_Inr [OF n] r show ?thesis by blast
qed

theorem medidores_normalized_witness:
  "get_medidores_generacion demo_lib demo_session demo_day demo_day = Inr demo_table
   \<and> (\<exists>res raw j.
         get_descargar demo_session = Inr res \<and> csv (body res) = Some raw
         \<and> (find_column ''fechahora'' (map strip_space (columns raw))
              :: (int \<times> nat) failure + nat) = Inr j
         \<and> columns demo_table = ''fechahora'' # drop_at j (map strip_space (columns raw))
         \<and> data_rows demo_table
             = map (normal_row demo_lib j (length (columns raw)))
                 (filter (kept_row demo_lib j (length (columns raw))) (data_rows raw)))
   \<and> map (\<lambda>r. r ! 1) (data_rows demo_table) = [Num (125, 1), NA, NA]
   \<and> map (to_numeric demo_lib) [Some ''12.5'', None, Some ''abc''] = [Some (125, 1), None, None]"
proof -
  have g: "get_medidores_generacion demo_lib demo_session demo_day demo_day = Inr demo_table"
    by code_simp
  have c: "map (\<lambda>r. r ! 1) (data_rows demo_table) = [Num (125, 1), NA, NA]"
    by code_simp
  have n: "map (to_numeric demo_lib) [Some ''12.5'', None, Some ''abc'']
             = [Some (125, 1), None, None]"
    by code_simp
  from medidores_normalized [OF g] g c n show ?thesis by blast
qed

text \<open>
  Claim C6. Neither function lets an exception out. \<open>get_demanda_ejecutado\<close> returns
  \<open>None\<close> and logs the exception when the request raises (a timeout, broken transport
  data) and when the status is in [400, 600); \<open>process_demanda_ejecutado\<close> returns
  \<open>None\<close> and logs the exception whenever its \<open>try\<close> block raises, which it does when the
  body is not JSON and when the JSON object has no key \<open>Data\<close>.
\<close>

theorem demanda_soft_failure:
  "(\<exists>v l. get_demanda_ejecutado session start end_date log = Inr (v, l))
   \<and> (\<forall>e. session (strftime_dmy start) (strftime_dmy end_date) = Inl e \<longrightarrow>
          get_demanda_ejecutado session start end_date log =
            Inr (None,
                 log @ [Log_info (''Requesting '' @ demanda_ejecutado @ '' from ''
                                    @ str_date start @ '' to '' @ str_date end_date),
                        Log_exception (''Exception while requesting '' @ demanda_ejecutado
                                         @ '':'' @ [CHR 0x0A]) (Raised e)]))
   \<and> (\<forall>r. session (strftime_dmy start) (strftime_dmy end_date) = Inr r
            \<and> 400 \<le> status_code r \<and> status_code r < 600 \<longrightarrow>
          get_demanda_ejecutado session start end_date log =
            Inr (None,
                 log @ [Log_info (''Requesting '' @ demanda_ejecutado @ '' from ''
                                    @ str_date start @ '' to '' @ str_date end_date),
                        Log_exception (''Exception while requesting '' @ demanda_ejecutado
                                         @ '':'' @ [CHR 0x0A])
                          (Raised (HTTPError (http_error_msg r) r))]))
   \<and> (\<exists>v l. process_demanda_ejecutado lib response log = Inr (v, l))
   \<and> (\<forall>e. process_demanda lib response = Inl e \<longrightarrow>
          process_demanda_ejecutado lib response log =
            Inr (None,
                 log @ [Log_info (''Processing '' @ demanda_ejecutado),
                        Log_exception (''Exception while processing '' @ demanda_ejecutado
                                         @ '':'' @ [CHR 0x0A]) e]))
   \<and> (json (body response) = None \<longrightarrow>
          process_demanda lib response = Inl (Raised (ValueError ''JSONDecodeError'')))
   \<and> (\<forall>kvs. json (body response) = Some (JObj kvs) \<and> ''Data'' \<notin> fst ` set kvs \<longrightarrow>
          process_demanda lib response = Inl (Raised (KeyError ''Data'')))"
proof (intro conjI allI impI)
  show "\<exists>v l. get_demanda_ejecutado session start end_date log = Inr (v, l)"
    by (simp add: get_demanda_ejecutado_def Let_def split: sum.splits)
  show "\<exists>v l. process_demanda_ejecutado lib response log = Inr (v, l)"
    by (simp add: process_demanda_ejecutado_def Let_def split: sum.splits)
next
  fix e assume "session (strftime_dmy start) (strftime_dmy end_date) = Inl e"
  then show "get_demanda_ejecutado session start end_date log =
            Inr (None,
                 log @ [Log_info (''Requesting '' @ demanda_ejecutado @ '' from ''
                                    @ str_date start @ '' to '' @ str_date end_date),
                        Log_exception (''Exception while requesting '' @ demanda_ejecutado
                                         @ '':'' @ [CHR 0x0A]) (Raised e)])"
    by (simp add: get_demanda_ejecutado_def fetch_demanda_def checked_def Let_def)
next
  fix r assume "session (strftime_dmy start) (strftime_dmy end_date) = Inr r
            \<and> 400 \<le> status_code r \<and> status_code r < 600"
  moreover from this have "http_error_msg r \<noteq> []"
    by (auto simp: http_error_msg_def client_error_msg_def server_error_msg_def)
  ultimately show "get_demanda_ejecutado session start end_date log =
            Inr (None,
                 log @ [Log_info (''Requesting '' @ demanda_ejecutado @ '' from ''
                                    @ str_date start @ '' to '' @ str_date end_date),
                        Log_exception (''Exception while requesting '' @ demanda_ejecutado
                                         @ '':'' @ [CHR 0x0A])
                          (Raised (HTTPError (http_error_msg r) r))])"
    by (simp add: get_demanda_ejecutado_def fetch_demanda_def checked_def Let_def
          raise_for_status_def)
next
  fix e assume "process_demanda lib response = Inl e"
  then show "process_demanda_ejecutado lib response log =
            Inr (None,
                 log @ [Log_info (''Processing '' @ demanda_ejecutado),
                        Log_exception (''Exception while processing '' @ demanda_ejecutado
                                         @ '':'' @ [CHR 0x0A]) e])"
    by (simp add: process_demanda_ejecutado_def Let_def)
next
  assume "json (body response) = None"
  then show "process_demanda lib response = Inl (Raised (ValueError ''JSONDecodeError''))"
    by (simp add: process_demanda_def)
next
  fix kvs assume "json (body response) = Some (JObj kvs) \<and> ''Data'' \<notin> fst ` set kvs"
  moreover from this have "map_of kvs ''Data'' = None"
    by (simp add: map_of_eq_None_iff)
  ultimately show "process_demanda lib response = Inl (Raised (KeyError ''Data''))"
    by (simp add: process_demanda_def subscript_def)
qed

theorem demanda_soft_failure_witness:
  "get_demanda_ejecutado (timed_out :: (int \<times> nat) demanda_session) demo_day demo_day [] =
     Inr (None,
          [Log_info (''Requesting '' @ demanda_ejecutado @ '' from 2024-01-15 to 2024-01-15''),
           Log_exception (''Exception while requesting '' @ demanda_ejecutado @ '':''
                            @ [CHR 0x0A])
             (Raised (Transport ''Read timed out. (read timeout=90)''))])
   \<and> process_demanda_ejecutado demo_lib (json_response (Some no_data)) [] =
     Inr (None,
          [Log_info (''Processing '' @ demanda_ejecutado),
           Log_exception (''Exception while processing '' @ demanda_ejecutado @ '':''
                            @ [CHR 0x0A]) (Raised (KeyError ''Data''))])
   \<and> process_demanda_ejecutado demo_lib not_json [] =
     Inr (None,
          [Log_info (''Processing '' @ demanda_ejecutado),
           Log_exception (''Exception while processing '' @ demanda_ejecutado @ '':''
                            @ [CHR 0x0A]) (Raised (ValueError ''JSONDecodeError''))])"
proof -
  have s: "str_date demo_day = ''2024-01-15''" by code_simp
  have t: "(timed_out :: (int \<times> nat) demanda_session) (strftime_dmy demo_day)
              (strftime_dmy demo_day) = Inl (Transport ''Read timed out. (read timeout=90)'')"
    by (simp add: timed_out_def)
  have k: "json (body (json_response (Some no_data))) = Some (JObj [(''Success'', JBool True)])
           \<and> ''Data'' \<notin> fst ` set [(''Success'', JBool True) :: string \<times> (int \<times> nat) json]"
    by (simp add: json_response_def no_data_def)
  have n: "json (body not_json) = None"
    by (simp add: not_json_def json_response_def)
  note a = demanda_soft_failure
             [of "timed_out :: (int \<times> nat) demanda_session" demo_day demo_day "[]"
                 demo_lib "json_response (Some no_data)"]
  note b = demanda_soft_failure
             [of "timed_out :: (int \<times> nat) demanda_session" demo_day demo_day "[]"
                 demo_lib not_json]
  from a t s have 1: "get_demanda_ejecutado (timed_out :: (int \<times> nat) demanda_session)
                        demo_day demo_day [] =
     Inr (None,
          [Log_info (''Requesting '' @ demanda_ejecutado @ '' from 2024-01-15 to 2024-01-15''),
           Log_exception (''Exception while requesting '' @ demanda_ejecutado @ '':''
                            @ [CHR 0x0A])
             (Raised (Transport ''Read timed out. (read timeout=90)''))])"
    by simp
  from a k have "process_demanda demo_lib (json_response (Some no_data))
                   = Inl (Raised (KeyError ''Data''))"
    by blast
  with a have 2: "process_demanda_ejecutado demo_lib (json_response (Some no_data)) [] =
     Inr (None,
          [Log_info (''Processing '' @ demanda_ejecutado),
           Log_exception (''Exception while processing '' @ demanda_ejecutado @ '':''
                            @ [CHR 0x0A]) (Raised (KeyError ''Data''))])"
    by simp
  from b n have "process_demanda demo_lib not_json = Inl (Raised (ValueError ''JSONDecodeError''))"
    by blast
  with b have 3: "process_demanda_ejecutado demo_lib not_json [] =
     Inr (None,
          [Log_info (''Processing '' @ demanda_ejecutado),
           Log_exception (''Exception while processing '' @ demanda_ejecutado @ '':''
                            @ [CHR 0x0A]) (Raised (ValueError ''JSONDecodeError''))])"
    by simp
  from 1 2 3 show ?thesis by blast
qed






end
